theory Spec2Isabelle
  imports Complex_Main "HOL-Library.AList" "HOL-Library.Multiset"
    "HOL-Library.List_Lexorder" "HOL-Library.Char_ord"
begin

section \<open>The trade record (lib/db) and the aggregate records (lib/analytics)\<close>

text \<open>
  The analytics module \<^verbatim>\<open>lib/analytics\<close> is a set of pure functions over
  \<^verbatim>\<open>Trade[]\<close>. The string unions of the \<^verbatim>\<open>Trade\<close> interface are datatypes,
  the interface itself is a record holding the fields the analytics functions read.

  In the functions of the first sections JavaScript numbers are exact reals: the value the
  binary64 arithmetic of the source has as long as no operation rounds, overflows or
  yields NaN. The one non-finite value the module writes itself, the literal
  \<^verbatim>\<open>Infinity\<close> of \<^verbatim>\<open>profitFactor\<close>, is a constructor of its own. The fields of
  \<^verbatim>\<open>calculateStats\<close> that overflow can reach (the two totals, their quotient and the
  maximum drawdown) are modelled a second time in binary64 arithmetic, with rounding,
  infinities and NaN, in the section on \<open>calculateStats64\<close>.
  Counts (\<^verbatim>\<open>length\<close>, \<^verbatim>\<open>++\<close> on a counter that starts at 0) are naturals.

  A \<^verbatim>\<open>Date\<close> is modelled by the three observers the module calls on it; how the
  JavaScript runtime relates them (calendar and time zone) is left open. Dates are valid
  (\<^verbatim>\<open>getTime()\<close> is a number, not NaN).
\<close>

datatype result = Win | Loss | BE

datatype session = Asian | London | NY | PreNY | PostNY

datatype emotion = Calm | Fear | Greed | Impulsive | Overconfident | Disciplined

record Date =
  getTime :: int
  getFullYear :: int
  getMonth :: nat

record Trade =
  date :: Date
  result :: result
  rMultiple :: real
  riskPercent :: real
  riskAmount :: real
  rewardAmount :: real
  session :: session
  setupTag :: string
  emotion :: emotion

text \<open>The string value of each member of the \<^verbatim>\<open>session\<close> union.\<close>

fun session_str :: "session \<Rightarrow> string" where
  "session_str Asian = ''Asian''"
| "session_str London = ''London''"
| "session_str NY = ''NY''"
| "session_str PreNY = ''Pre-NY''"
| "session_str PostNY = ''Post-NY''"

text \<open>
  \<^verbatim>\<open>[...trades].sort((a, b) => new Date(a.date).getTime() - new Date(b.date).getTime())\<close>:
  a stable sort (ECMAScript 2019) on the time stamp, ascending. \<^const>\<open>sort_key\<close> is the
  stable insertion sort of the list library.
\<close>

definition sortedTrades :: "Trade list \<Rightarrow> Trade list" where
  "sortedTrades trades = sort_key (\<lambda>t. getTime (date t)) trades"

section \<open>calculateEquityCurve\<close>

text \<open>
  The label of a point is the literal \<^verbatim>\<open>'Start'\<close> or the locale rendering of the trade's
  date (\<^verbatim>\<open>toLocaleDateString()\<close>), kept here as the date it renders.
\<close>

datatype label = Start | DateLabel Date

record EquityPoint =
  label :: label
  equity :: real
  balance :: real

text \<open>
  The \<^verbatim>\<open>for\<close> loop of \<^verbatim>\<open>calculateEquityCurve\<close>: \<^verbatim>\<open>runningBalance\<close> and the
  \<^verbatim>\<open>curve\<close> built so far are the loop state.
  \<^verbatim>\<open>runningBalance += trade.rewardAmount - (trade.result === 'Loss' ? trade.riskAmount : 0)\<close>.
\<close>

fun equity_loop :: "real \<Rightarrow> Trade list \<Rightarrow> real \<Rightarrow> EquityPoint list \<Rightarrow> EquityPoint list" where
  "equity_loop startingBalance [] runningBalance curve = curve"
| "equity_loop startingBalance (trade # rest) runningBalance curve =
     (let runningBalance' =
            runningBalance + (rewardAmount trade - (if result trade = Loss then riskAmount trade else 0))
      in equity_loop startingBalance rest runningBalance'
           (curve @ [\<lparr> label = DateLabel (date trade),
                       equity = runningBalance' - startingBalance,
                       balance = runningBalance' \<rparr>]))"

definition calculateEquityCurve :: "Trade list \<Rightarrow> real \<Rightarrow> EquityPoint list" where
  "calculateEquityCurve trades startingBalance =
     equity_loop startingBalance (sortedTrades trades) startingBalance
       [\<lparr> label = Start, equity = 0, balance = startingBalance \<rparr>]"

text \<open>
  The increment the specification gives for one trade: the reward amount of a win, minus
  the risk amount of a loss, nothing for a breakeven trade. It is also the balance change
  \<^verbatim>\<open>handleAddTrade\<close> (contexts/AppContext) applies to the account when the trade is added.
\<close>

definition balanceChange :: "Trade \<Rightarrow> real" where
  "balanceChange trade =
     (if result trade = Win then rewardAmount trade
      else if result trade = Loss then - riskAmount trade
      else 0)"

section \<open>calculateSessionStats and calculateSetupStats\<close>

record SessionStats =
  session :: string
  trades :: nat
  winRate :: real
  avgR :: real
  totalR :: real

text \<open>
  The field \<^verbatim>\<open>setup\<close> of \<^verbatim>\<open>SetupStats\<close> is \<open>setupName\<close> here (the source's name is
  reserved in Isabelle).
\<close>

record SetupStats =
  setupName :: string
  trades :: nat
  winRate :: real
  avgR :: real
  totalR :: real

text \<open>\<^verbatim>\<open>const sessions = ['Asian', 'London', 'NY', 'Pre-NY', 'Post-NY']\<close>\<close>

definition sessions :: "string list" where
  "sessions = [''Asian'', ''London'', ''NY'', ''Pre-NY'', ''Post-NY'']"

text \<open>\<^verbatim>\<open>xs.reduce((sum, t) => sum + f(t), 0)\<close>: a left fold from 0.\<close>

definition reduce_sum :: "('a \<Rightarrow> real) \<Rightarrow> 'a list \<Rightarrow> real" where
  "reduce_sum f xs = foldl (\<lambda>sum t. sum + f t) 0 xs"

text \<open>The callback of \<^verbatim>\<open>sessions.map\<close> in \<^verbatim>\<open>calculateSessionStats\<close>.\<close>

definition session_entry :: "Trade list \<Rightarrow> string \<Rightarrow> SessionStats" where
  "session_entry ts s =
     (let sessionTrades = filter (\<lambda>t. session_str (Trade.session t) = s) ts;
          wins = filter (\<lambda>t. result t = Win) sessionTrades;
          totalR = reduce_sum rMultiple sessionTrades
      in \<lparr> SessionStats.session = s,
           SessionStats.trades = length sessionTrades,
           SessionStats.winRate =
             (if length sessionTrades > 0
              then real (length wins) / real (length sessionTrades) * 100 else 0),
           SessionStats.avgR =
             (if length sessionTrades > 0 then totalR / real (length sessionTrades) else 0),
           SessionStats.totalR = totalR \<rparr>)"

definition calculateSessionStats :: "Trade list \<Rightarrow> SessionStats list" where
  "calculateSessionStats ts =
     filter (\<lambda>s. SessionStats.trades s > 0) (map (session_entry ts) sessions)"

text \<open>
  \<^verbatim>\<open>[...new Set(trades.map(t => t.setupTag))]\<close>: a \<^verbatim>\<open>Set\<close> keeps its elements in
  insertion order and adding an element it holds changes nothing.
\<close>

definition set_insert :: "'a list \<Rightarrow> 'a \<Rightarrow> 'a list" where
  "set_insert acc x = (if x \<in> set acc then acc else acc @ [x])"

definition new_Set :: "'a list \<Rightarrow> 'a list" where
  "new_Set xs = foldl set_insert [] xs"

definition setup_entry :: "Trade list \<Rightarrow> string \<Rightarrow> SetupStats" where
  "setup_entry ts s =
     (let setupTrades = filter (\<lambda>t. setupTag t = s) ts;
          wins = filter (\<lambda>t. result t = Win) setupTrades;
          totalR = reduce_sum rMultiple setupTrades
      in \<lparr> SetupStats.setupName = s,
           SetupStats.trades = length setupTrades,
           SetupStats.winRate =
             (if length setupTrades > 0
              then real (length wins) / real (length setupTrades) * 100 else 0),
           SetupStats.avgR =
             (if length setupTrades > 0 then totalR / real (length setupTrades) else 0),
           SetupStats.totalR = totalR \<rparr>)"

definition calculateSetupStats :: "Trade list \<Rightarrow> SetupStats list" where
  "calculateSetupStats ts =
     filter (\<lambda>s. SetupStats.trades s > 0)
       (map (setup_entry ts) (new_Set (map setupTag ts)))"

section \<open>calculateStats\<close>

text \<open>
  \<^verbatim>\<open>profitFactor\<close> is an ordinary number or the literal \<^verbatim>\<open>Infinity\<close>.
\<close>

datatype number = Finite real | Infinity

record TradingStats =
  totalTrades :: nat
  winRate :: real
  avgR :: real
  profitFactor :: number
  expectancy :: real
  maxConsecutiveWins :: nat
  maxConsecutiveLosses :: nat
  maxDrawdown :: real
  totalProfit :: real
  totalLoss :: real
  bestSession :: string
  worstSession :: string
  bestSetup :: string
  worstSetup :: string

text \<open>
  The streak loop. Its state is \<^verbatim>\<open>currentWinStreak\<close>, \<^verbatim>\<open>currentLossStreak\<close>,
  \<^verbatim>\<open>maxConsecutiveWins\<close>, \<^verbatim>\<open>maxConsecutiveLosses\<close>; the result is the two maxima.
\<close>

fun streak_loop :: "Trade list \<Rightarrow> nat \<Rightarrow> nat \<Rightarrow> nat \<Rightarrow> nat \<Rightarrow> nat \<times> nat" where
  "streak_loop [] currentWinStreak currentLossStreak maxWins maxLosses = (maxWins, maxLosses)"
| "streak_loop (trade # rest) currentWinStreak currentLossStreak maxWins maxLosses =
     (if result trade = Win then
        streak_loop rest (currentWinStreak + 1) 0 (max maxWins (currentWinStreak + 1)) maxLosses
      else if result trade = Loss then
        streak_loop rest 0 (currentLossStreak + 1) maxWins (max maxLosses (currentLossStreak + 1))
      else
        streak_loop rest 0 0 maxWins maxLosses)"

text \<open>
  The drawdown loop. Its state is \<^verbatim>\<open>peak\<close>, \<^verbatim>\<open>maxDrawdown\<close> and
  \<^verbatim>\<open>runningBalance\<close>, all 0 at the start; the result is \<^verbatim>\<open>maxDrawdown\<close>.
\<close>

fun drawdown_loop :: "Trade list \<Rightarrow> real \<Rightarrow> real \<Rightarrow> real \<Rightarrow> real" where
  "drawdown_loop [] peak maxDD runningBalance = maxDD"
| "drawdown_loop (trade # rest) peak maxDD runningBalance =
     (let runningBalance' = runningBalance + rMultiple trade;
          peak' = max peak runningBalance';
          drawdown = peak' - runningBalance'
      in drawdown_loop rest peak' (max maxDD drawdown) runningBalance')"

text \<open>
  \<^verbatim>\<open>stats.reduce((best, curr) => curr.avgR > best.avgR ? curr : best, stats[0])\<close>.
  On an empty array \<^verbatim>\<open>stats[0]\<close> is \<^verbatim>\<open>undefined\<close> and \<^verbatim>\<open>reduce\<close> returns it
  without calling the callback: \<^const>\<open>None\<close> here.
\<close>

definition reduce_pick :: "('a \<Rightarrow> 'a \<Rightarrow> bool) \<Rightarrow> 'a list \<Rightarrow> 'a option" where
  "reduce_pick better xs =
     (case xs of
        [] \<Rightarrow> None
      | x0 # _ \<Rightarrow> Some (foldl (\<lambda>best curr. if better curr best then curr else best) x0 xs))"

text \<open>
  \<^verbatim>\<open>x?.name || 'N/A'\<close>: \<^verbatim>\<open>undefined\<close> and the empty string are falsy.
\<close>

definition or_NA :: "string option \<Rightarrow> string" where
  "or_NA s = (case s of None \<Rightarrow> ''N/A'' | Some n \<Rightarrow> if n = [] then ''N/A'' else n)"

definition calculateStats :: "Trade list \<Rightarrow> TradingStats" where
  "calculateStats ts =
     (if length ts = 0 then
        \<lparr> totalTrades = 0, winRate = 0, avgR = 0, profitFactor = Finite 0, expectancy = 0,
          maxConsecutiveWins = 0, maxConsecutiveLosses = 0, maxDrawdown = 0,
          totalProfit = 0, totalLoss = 0,
          bestSession = ''N/A'', worstSession = ''N/A'',
          bestSetup = ''N/A'', worstSetup = ''N/A'' \<rparr>
      else
        let wins = filter (\<lambda>t. result t = Win) ts;
            losses = filter (\<lambda>t. result t = Loss) ts;
            totalProfit = reduce_sum rewardAmount wins;
            totalLoss = \<bar>reduce_sum riskAmount losses\<bar>;
            totalR = reduce_sum rMultiple ts;
            avgR = totalR / real (length ts);
            sorted = sortedTrades ts;
            streaks = streak_loop sorted 0 0 0 0;
            maxDrawdown = drawdown_loop sorted 0 0 0;
            sessionStats = calculateSessionStats ts;
            bestSession =
              reduce_pick (\<lambda>curr best. SessionStats.avgR curr > SessionStats.avgR best) sessionStats;
            worstSession =
              reduce_pick (\<lambda>curr worst. SessionStats.avgR curr < SessionStats.avgR worst) sessionStats;
            setupStats = calculateSetupStats ts;
            bestSetup =
              (if length setupStats > 0
               then map_option SetupStats.setupName
                      (reduce_pick (\<lambda>curr best. SetupStats.avgR curr > SetupStats.avgR best) setupStats)
               else Some ''N/A'');
            worstSetup =
              (if length setupStats > 0
               then map_option SetupStats.setupName
                      (reduce_pick (\<lambda>curr worst. SetupStats.avgR curr < SetupStats.avgR worst) setupStats)
               else Some ''N/A'')
        in \<lparr> totalTrades = length ts,
             winRate = real (length wins) / real (length ts) * 100,
             avgR = avgR,
             profitFactor =
               (if totalLoss > 0 then Finite (totalProfit / totalLoss)
                else if totalProfit > 0 then Infinity else Finite 0),
             expectancy = avgR,
             maxConsecutiveWins = fst streaks,
             maxConsecutiveLosses = snd streaks,
             maxDrawdown = maxDrawdown,
             totalProfit = totalProfit,
             totalLoss = totalLoss,
             bestSession = or_NA (map_option SessionStats.session bestSession),
             worstSession = or_NA (map_option SessionStats.session worstSession),
             bestSetup = or_NA bestSetup,
             worstSetup = or_NA worstSetup \<rparr>)"

section \<open>calculateMonthlyPerformance\<close>

text \<open>
  \<^verbatim>\<open>String(n)\<close> for a natural number and for an integer, and \<^verbatim>\<open>padStart\<close>.
\<close>

definition digit_char :: "nat \<Rightarrow> char" where
  "digit_char d = ''0123456789'' ! d"

fun nat_str :: "nat \<Rightarrow> string" where
  "nat_str n = (if n < 10 then [digit_char n] else nat_str (n div 10) @ [digit_char (n mod 10)])"

declare nat_str.simps [simp del]

definition int_str :: "int \<Rightarrow> string" where
  "int_str i = (if i < 0 then CHR ''-'' # nat_str (nat (- i)) else nat_str (nat i))"

definition padStart :: "nat \<Rightarrow> char \<Rightarrow> string \<Rightarrow> string" where
  "padStart n c s = replicate (n - length s) c @ s"

text \<open>
  \<^verbatim>\<open>`${date.getFullYear()}-${String(date.getMonth() + 1).padStart(2, '0')}`\<close>
\<close>

definition monthKey :: "Trade \<Rightarrow> string" where
  "monthKey trade =
     int_str (getFullYear (date trade)) @ ''-'' @
     padStart 2 (CHR ''0'') (nat_str (getMonth (date trade) + 1))"

text \<open>
  \<^verbatim>\<open>monthlyData\<close> is an object used as a dictionary. Its keys hold a hyphen, so none is
  an array index and \<^verbatim>\<open>Object.entries\<close> lists them in insertion order: an association
  list, new keys at the end. An entry is an object, hence truthy, so
  \<^verbatim>\<open>!monthlyData[monthKey]\<close> holds exactly when the key is absent.
\<close>

record MonthData =
  profit :: real
  trades :: nat
  wins :: nat

record MonthlyPerformance =
  month :: string
  profit :: real
  trades :: nat
  winRate :: real

text \<open>The three updates of the entry in the loop body.\<close>

definition month_add :: "Trade \<Rightarrow> MonthData \<Rightarrow> MonthData" where
  "month_add trade d =
     \<lparr> MonthData.profit = MonthData.profit d + rMultiple trade,
       MonthData.trades = MonthData.trades d + 1,
       MonthData.wins = (if result trade = Win then MonthData.wins d + 1 else MonthData.wins d) \<rparr>"

fun monthly_loop :: "Trade list \<Rightarrow> (string \<times> MonthData) list \<Rightarrow> (string \<times> MonthData) list" where
  "monthly_loop [] monthlyData = monthlyData"
| "monthly_loop (trade # rest) monthlyData =
     (let k = monthKey trade;
          monthlyData' =
            (if map_of monthlyData k = None
             then monthlyData @
                    [(k, \<lparr> MonthData.profit = 0, MonthData.trades = 0, MonthData.wins = 0 \<rparr>)]
             else monthlyData)
      in monthly_loop rest (AList.map_entry k (month_add trade) monthlyData'))"

text \<open>
  \<^verbatim>\<open>.sort(([a], [b]) => a.localeCompare(b))\<close>: the keys are distinct; the order of
  \<^verbatim>\<open>localeCompare\<close> on them is taken to be the lexicographic order of their characters.
\<close>

definition calculateMonthlyPerformance :: "Trade list \<Rightarrow> MonthlyPerformance list" where
  "calculateMonthlyPerformance ts =
     map (\<lambda>(m, d). \<lparr> MonthlyPerformance.month = m,
                     MonthlyPerformance.profit = MonthData.profit d,
                     MonthlyPerformance.trades = MonthData.trades d,
                     MonthlyPerformance.winRate =
                       real (MonthData.wins d) / real (MonthData.trades d) * 100 \<rparr>)
       (sort_key fst (monthly_loop ts []))"

section \<open>generateInsights\<close>

text \<open>
  An insight is one of the ten template strings of \<^verbatim>\<open>generateInsights\<close>. Each
  constructor stands for one template and carries the values the template interpolates,
  before \<^verbatim>\<open>toFixed\<close> renders them.
\<close>

datatype insight =
    Onboarding
  | BestSessionInsight string real real
  | WorstSessionWarning string real
  | BestSetupInsight string real nat
  | RiskManagementInsight real
  | ConsecutiveLossesWarning nat
  | GreatWinRate real
  | ReviewWinRate real
  | ExcellentProfitFactor number
  | CalmVersusImpulsive real real

fun is_ConsecutiveLossesWarning :: "insight \<Rightarrow> bool" where
  "is_ConsecutiveLossesWarning (ConsecutiveLossesWarning n) = True"
| "is_ConsecutiveLossesWarning _ = False"

text \<open>Rules 1 to 3: best session, worst session, best setup.\<close>

definition bestSessionRule :: "Trade list \<Rightarrow> TradingStats \<Rightarrow> insight list" where
  "bestSessionRule ts stats =
     (if bestSession stats \<noteq> ''N/A'' then
        (case find (\<lambda>s. SessionStats.session s = bestSession stats) (calculateSessionStats ts) of
           Some best \<Rightarrow>
             if SessionStats.trades best \<ge> 3
             then [BestSessionInsight (bestSession stats)
                     (SessionStats.winRate best) (SessionStats.avgR best)]
             else []
         | None \<Rightarrow> [])
      else [])"

definition worstSessionRule :: "Trade list \<Rightarrow> TradingStats \<Rightarrow> insight list" where
  "worstSessionRule ts stats =
     (if worstSession stats \<noteq> ''N/A'' then
        (case find (\<lambda>s. SessionStats.session s = worstSession stats) (calculateSessionStats ts) of
           Some worst \<Rightarrow>
             if SessionStats.trades worst \<ge> 3 \<and> SessionStats.avgR worst < 0
             then [WorstSessionWarning (worstSession stats) (SessionStats.avgR worst)]
             else []
         | None \<Rightarrow> [])
      else [])"

definition bestSetupRule :: "Trade list \<Rightarrow> TradingStats \<Rightarrow> insight list" where
  "bestSetupRule ts stats =
     (if bestSetup stats \<noteq> ''N/A'' then
        (case find (\<lambda>s. SetupStats.setupName s = bestSetup stats) (calculateSetupStats ts) of
           Some best \<Rightarrow>
             if SetupStats.trades best \<ge> 3
             then [BestSetupInsight (bestSetup stats) (SetupStats.avgR best) (SetupStats.trades best)]
             else []
         | None \<Rightarrow> [])
      else [])"

text \<open>Rule 4: the mean of \<^verbatim>\<open>riskPercent\<close>.\<close>

definition riskRule :: "Trade list \<Rightarrow> insight list" where
  "riskRule ts =
     (let avgRisk = reduce_sum riskPercent ts / real (length ts)
      in if avgRisk > 2 then [RiskManagementInsight avgRisk] else [])"

text \<open>
  Rule 5. \<^verbatim>\<open>[...trades].sort((a, b) => b.getTime() - a.getTime()).slice(0, 5)\<close>: a stable
  sort on the time stamp, descending, and its first five elements.
\<close>

definition recentTrades :: "Trade list \<Rightarrow> Trade list" where
  "recentTrades ts = take 5 (sort_key (\<lambda>t. - getTime (date t)) ts)"

definition recentLosses :: "Trade list \<Rightarrow> nat" where
  "recentLosses ts = length (filter (\<lambda>t. result t = Loss) (recentTrades ts))"

definition consecutiveLossesRule :: "Trade list \<Rightarrow> TradingStats \<Rightarrow> insight list" where
  "consecutiveLossesRule ts stats =
     (if maxConsecutiveLosses stats \<ge> 3 then
        (if recentLosses ts \<ge> 3
         then [ConsecutiveLossesWarning (maxConsecutiveLosses stats)] else [])
      else [])"

text \<open>Rules 6 and 7 (an if / else-if chain) and rule 8.\<close>

definition winRateRule :: "Trade list \<Rightarrow> TradingStats \<Rightarrow> insight list" where
  "winRateRule ts stats =
     (if TradingStats.winRate stats \<ge> 60 then [GreatWinRate (TradingStats.winRate stats)]
      else if TradingStats.winRate stats < 40 \<and> length ts \<ge> 10
      then [ReviewWinRate (TradingStats.winRate stats)]
      else [])"

fun at_least_2 :: "number \<Rightarrow> bool" where
  "at_least_2 (Finite x) = (x \<ge> 2)"
| "at_least_2 Infinity = True"

definition profitFactorRule :: "TradingStats \<Rightarrow> insight list" where
  "profitFactorRule stats =
     (if at_least_2 (profitFactor stats) then [ExcellentProfitFactor (profitFactor stats)] else [])"

text \<open>
  Rule 9. \<^verbatim>\<open>emotionTrades\<close> is an object keyed by emotion, built by \<^verbatim>\<open>reduce\<close>; an
  entry is an object, so \<^verbatim>\<open>a || b\<close> is \<^verbatim>\<open>a\<close> when the key of \<^verbatim>\<open>a\<close> is present.
\<close>

record EmotionData =
  count :: nat
  wins :: nat
  totalR :: real

definition emotion_add :: "(emotion \<rightharpoonup> EmotionData) \<Rightarrow> Trade \<Rightarrow> (emotion \<rightharpoonup> EmotionData)" where
  "emotion_add acc t =
     (let d = (case acc (emotion t) of
                 Some d \<Rightarrow> d
               | None \<Rightarrow> \<lparr> EmotionData.count = 0, EmotionData.wins = 0, EmotionData.totalR = 0 \<rparr>)
      in acc (emotion t \<mapsto>
           \<lparr> EmotionData.count = EmotionData.count d + 1,
             EmotionData.wins = (if result t = Win then EmotionData.wins d + 1 else EmotionData.wins d),
             EmotionData.totalR = EmotionData.totalR d + rMultiple t \<rparr>))"

definition emotionTrades :: "Trade list \<Rightarrow> (emotion \<rightharpoonup> EmotionData)" where
  "emotionTrades ts = foldl emotion_add Map.empty ts"

definition or_else :: "'a option \<Rightarrow> 'a option \<Rightarrow> 'a option" where
  "or_else a b = (case a of Some x \<Rightarrow> Some x | None \<Rightarrow> b)"

definition emotionRule :: "Trade list \<Rightarrow> insight list" where
  "emotionRule ts =
     (let calmTrades = or_else (emotionTrades ts Calm) (emotionTrades ts Disciplined);
          impulsiveTrades = or_else (emotionTrades ts Impulsive) (emotionTrades ts Greed)
      in case (calmTrades, impulsiveTrades) of
           (Some c, Some i) \<Rightarrow>
             (let calmAvgR = EmotionData.totalR c / real (EmotionData.count c);
                  impulsiveAvgR = EmotionData.totalR i / real (EmotionData.count i)
              in if calmAvgR > impulsiveAvgR + 0.5
                 then [CalmVersusImpulsive calmAvgR impulsiveAvgR] else [])
         | _ \<Rightarrow> [])"

text \<open>
  \<^verbatim>\<open>generateInsights\<close>: the early return on the empty array, then the rules in order,
  each pushing no string or one.
\<close>

definition generateInsights :: "Trade list \<Rightarrow> TradingStats \<Rightarrow> insight list" where
  "generateInsights ts stats =
     (if length ts = 0 then [Onboarding]
      else bestSessionRule ts stats @ worstSessionRule ts stats @ bestSetupRule ts stats @
           riskRule ts @ consecutiveLossesRule ts stats @ winRateRule ts stats @
           profitFactorRule stats @ emotionRule ts)"

section \<open>Runs of equal outcomes\<close>

text \<open>
  The specification's words for the streak fields: the length of the longest run of
  consecutive equal outcomes. \<open>has_run r n xs\<close> says that \<open>xs\<close> holds \<open>n\<close> consecutive
  elements that are all \<open>r\<close>: some window of length \<open>n\<close> of \<open>xs\<close> is \<open>n\<close> copies of \<open>r\<close>.
  The longest run is the greatest such \<open>n\<close>.
\<close>

definition has_run :: "'a \<Rightarrow> nat \<Rightarrow> 'a list \<Rightarrow> bool" where
  "has_run r n xs = list_ex (\<lambda>i. take n (drop i xs) = replicate n r) [0..<Suc (length xs)]"

section \<open>IEEE 754 binary64 arithmetic\<close>

text \<open>
  Where a result turns on overflow, underflow or NaN, the source lines are modelled a
  second time over the binary64 numbers JavaScript computes with. A \<open>float64\<close> is NaN,
  one of the two infinities, or a finite value \<open>Num x\<close>; the two zeros are not told apart
  (no operation below divides by a zero or prints one).

  \<open>round64\<close> is round-to-nearest, ties-to-even: a real of magnitude at least
  \<open>2^1024 - 2^970\<close> (the largest finite value plus half a unit in its last place) becomes
  an infinity, any other real is rounded to a multiple of \<open>2^e\<close>, the unit in the last
  place, where \<open>e\<close> is the least exponent from -1074 with \<open>\<bar>x\<bar> < 2^(e + 53)\<close>.
  A field of a trade is a finite binary64 number and enters the arithmetic as \<open>Num\<close> of its
  value.
\<close>

datatype float64 = NaN | MinusInfinity | Num real | PlusInfinity

definition ulp_exponent :: "real \<Rightarrow> int" where
  "ulp_exponent x =
     (if \<bar>x\<bar> < 2 powi 1024
      then Min (Set.filter (\<lambda>k. \<bar>x\<bar> < 2 powi (k + 53)) {-1074..971})
      else 971)"

definition round_half_even :: "real \<Rightarrow> int" where
  "round_half_even q =
     (let f = \<lfloor>q\<rfloor>; r = q - of_int f
      in if r < 1 / 2 then f else if r > 1 / 2 then f + 1 else if even f then f else f + 1)"

definition overflow_threshold :: real where
  "overflow_threshold = 2 ^ 1024 - 2 ^ 970"

definition round64 :: "real \<Rightarrow> float64" where
  "round64 x =
     (if \<bar>x\<bar> \<ge> overflow_threshold then (if x > 0 then PlusInfinity else MinusInfinity)
      else let e = ulp_exponent x
           in Num (sgn x * of_int (round_half_even (\<bar>x\<bar> / 2 powi e)) * 2 powi e))"

text \<open>\<^verbatim>\<open>a + b\<close>, \<^verbatim>\<open>-a\<close> and \<^verbatim>\<open>a - b\<close>.\<close>

fun add64 :: "float64 \<Rightarrow> float64 \<Rightarrow> float64" where
  "add64 NaN _ = NaN"
| "add64 _ NaN = NaN"
| "add64 PlusInfinity MinusInfinity = NaN"
| "add64 MinusInfinity PlusInfinity = NaN"
| "add64 PlusInfinity _ = PlusInfinity"
| "add64 _ PlusInfinity = PlusInfinity"
| "add64 MinusInfinity _ = MinusInfinity"
| "add64 _ MinusInfinity = MinusInfinity"
| "add64 (Num a) (Num b) = round64 (a + b)"

fun neg64 :: "float64 \<Rightarrow> float64" where
  "neg64 NaN = NaN"
| "neg64 PlusInfinity = MinusInfinity"
| "neg64 MinusInfinity = PlusInfinity"
| "neg64 (Num a) = Num (- a)"

definition sub64 :: "float64 \<Rightarrow> float64 \<Rightarrow> float64" where
  "sub64 a b = add64 a (neg64 b)"

text \<open>\<^verbatim>\<open>a < b\<close> and \<^verbatim>\<open>a >= b\<close>: false when an operand is NaN.\<close>

fun less64 :: "float64 \<Rightarrow> float64 \<Rightarrow> bool" where
  "less64 NaN _ = False"
| "less64 _ NaN = False"
| "less64 MinusInfinity MinusInfinity = False"
| "less64 MinusInfinity _ = True"
| "less64 _ MinusInfinity = False"
| "less64 PlusInfinity _ = False"
| "less64 _ PlusInfinity = True"
| "less64 (Num a) (Num b) = (a < b)"

definition ge64 :: "float64 \<Rightarrow> float64 \<Rightarrow> bool" where
  "ge64 a b = (a \<noteq> NaN \<and> b \<noteq> NaN \<and> \<not> less64 a b)"

text \<open>\<^verbatim>\<open>Math.max(a, b)\<close> (NaN when an argument is NaN) and \<^verbatim>\<open>Math.abs(a)\<close>.\<close>

definition max64 :: "float64 \<Rightarrow> float64 \<Rightarrow> float64" where
  "max64 a b = (if a = NaN \<or> b = NaN then NaN else if less64 a b then b else a)"

fun abs64 :: "float64 \<Rightarrow> float64" where
  "abs64 NaN = NaN"
| "abs64 PlusInfinity = PlusInfinity"
| "abs64 MinusInfinity = PlusInfinity"
| "abs64 (Num a) = Num \<bar>a\<bar>"

text \<open>\<^verbatim>\<open>a / b\<close>; a zero divisor is taken as the positive zero.\<close>

fun div64 :: "float64 \<Rightarrow> float64 \<Rightarrow> float64" where
  "div64 NaN _ = NaN"
| "div64 _ NaN = NaN"
| "div64 (Num a) (Num b) =
     (if b = 0 then (if a = 0 then NaN else if a > 0 then PlusInfinity else MinusInfinity)
      else round64 (a / b))"
| "div64 (Num a) _ = Num 0"
| "div64 PlusInfinity (Num b) = (if b < 0 then MinusInfinity else PlusInfinity)"
| "div64 MinusInfinity (Num b) = (if b < 0 then PlusInfinity else MinusInfinity)"
| "div64 _ _ = NaN"

text \<open>\<^verbatim>\<open>xs.reduce((sum, t) => sum + f(t), 0)\<close> in binary64 arithmetic.\<close>

definition reduce_sum64 :: "('a \<Rightarrow> real) \<Rightarrow> 'a list \<Rightarrow> float64" where
  "reduce_sum64 f xs = foldl (\<lambda>sum t. add64 sum (Num (f t))) (Num 0) xs"

section \<open>calculateStats in binary64 arithmetic\<close>

text \<open>
  The four fields of \<^verbatim>\<open>calculateStats\<close> that overflow can reach, computed as the source
  computes them: \<^verbatim>\<open>totalProfit\<close>, \<^verbatim>\<open>totalLoss\<close>, \<^verbatim>\<open>profitFactor\<close> and
  \<^verbatim>\<open>maxDrawdown\<close>, with the early return on the empty array.
\<close>

record TradingStats64 =
  maxDrawdown64 :: float64
  totalProfit64 :: float64
  totalLoss64 :: float64
  profitFactor64 :: float64

fun drawdown_loop64 :: "Trade list \<Rightarrow> float64 \<Rightarrow> float64 \<Rightarrow> float64 \<Rightarrow> float64" where
  "drawdown_loop64 [] peak maxDD runningBalance = maxDD"
| "drawdown_loop64 (trade # rest) peak maxDD runningBalance =
     (let runningBalance' = add64 runningBalance (Num (rMultiple trade));
          peak' = max64 peak runningBalance';
          drawdown = sub64 peak' runningBalance'
      in drawdown_loop64 rest peak' (max64 maxDD drawdown) runningBalance')"

definition calculateStats64 :: "Trade list \<Rightarrow> TradingStats64" where
  "calculateStats64 ts =
     (if length ts = 0 then
        \<lparr> maxDrawdown64 = Num 0, totalProfit64 = Num 0, totalLoss64 = Num 0,
          profitFactor64 = Num 0 \<rparr>
      else
        let wins = filter (\<lambda>t. result t = Win) ts;
            losses = filter (\<lambda>t. result t = Loss) ts;
            totalProfit = reduce_sum64 rewardAmount wins;
            totalLoss = abs64 (reduce_sum64 riskAmount losses);
            sorted = sortedTrades ts;
            maxDrawdown = drawdown_loop64 sorted (Num 0) (Num 0) (Num 0)
        in \<lparr> maxDrawdown64 = maxDrawdown,
             totalProfit64 = totalProfit,
             totalLoss64 = totalLoss,
             profitFactor64 =
               (if less64 (Num 0) totalLoss then div64 totalProfit totalLoss
                else if less64 (Num 0) totalProfit then PlusInfinity else Num 0) \<rparr>)"

text \<open>
  The values \<^verbatim>\<open>runningBalance\<close> takes in the drawdown loop, one for each trade: the
  running sum of the r-multiples.
\<close>

fun running_balances64 :: "Trade list \<Rightarrow> float64 \<Rightarrow> float64 list" where
  "running_balances64 [] runningBalance = []"
| "running_balances64 (trade # rest) runningBalance =
     (let runningBalance' = add64 runningBalance (Num (rMultiple trade))
      in runningBalance' # running_balances64 rest runningBalance')"

text \<open>A running balance that is a finite number or minus infinity.\<close>

definition finite_or_minus :: "float64 \<Rightarrow> bool" where
  "finite_or_minus x = (x \<noteq> NaN \<and> x \<noteq> PlusInfinity)"

text \<open>
  The steps of the drawdown loop from \<open>peak\<close> and \<open>rb\<close> that compute without rounding:
  each sum and each difference is a binary64 number already.
\<close>

fun drawdown_exact :: "Trade list \<Rightarrow> real \<Rightarrow> real \<Rightarrow> bool" where
  "drawdown_exact [] peak rb = True"
| "drawdown_exact (trade # rest) peak rb =
     (let rb' = rb + rMultiple trade; peak' = max peak rb'
      in round64 rb' = Num rb' \<and> round64 (peak' - rb') = Num (peak' - rb')
         \<and> drawdown_exact rest peak' rb')"

section \<open>The trades in the order of their dates\<close>

text \<open>
  The specification's words for the two sorted sequences. \<open>chronological ts xs\<close>: \<open>xs\<close>
  holds the trades of \<open>ts\<close>, each as often as \<open>ts\<close> does, with the dates ascending and
  the trades of one date in the order they have in \<open>ts\<close>. \<open>latest_first ts xs\<close>: the same
  with the dates descending.
\<close>

definition chronological :: "Trade list \<Rightarrow> Trade list \<Rightarrow> bool" where
  "chronological ts xs =
     (mset xs = mset ts
      \<and> sorted (map (\<lambda>t. getTime (date t)) xs)
      \<and> (\<forall>t\<in>set ts. filter (\<lambda>u. getTime (date u) = getTime (date t)) xs
                     = filter (\<lambda>u. getTime (date u) = getTime (date t)) ts))"

definition latest_first :: "Trade list \<Rightarrow> Trade list \<Rightarrow> bool" where
  "latest_first ts xs =
     (mset xs = mset ts
      \<and> sorted (rev (map (\<lambda>t. getTime (date t)) xs))
      \<and> (\<forall>t\<in>set ts. filter (\<lambda>u. getTime (date u) = getTime (date t)) xs
                     = filter (\<lambda>u. getTime (date u) = getTime (date t)) ts))"

text \<open>Example trades.\<close>

definition day :: "int \<Rightarrow> Date" where
  "day n = \<lparr> getTime = n * 86400000, getFullYear = 2024, getMonth = 2 \<rparr>"

definition mk_trade :: "int \<Rightarrow> result \<Rightarrow> real \<Rightarrow> real \<Rightarrow> real \<Rightarrow> string \<Rightarrow> Trade" where
  "mk_trade n res r risk reward tag =
     \<lparr> date = day n, result = res, rMultiple = r, riskPercent = 1, riskAmount = risk,
       rewardAmount = reward, session = London, setupTag = tag, emotion = Calm \<rparr>"

definition win_loss_example :: "Trade list" where
  "win_loss_example =
     [mk_trade 1 Win 2 100 200 ''Breakout'', mk_trade 2 Loss (-1) 100 0 ''Breakout'']"

definition session_example :: "Trade list" where
  "session_example =
     [(mk_trade 1 Win 2 100 200 ''Breakout'')\<lparr> Trade.session := NY \<rparr>,
      (mk_trade 2 Loss (-1) 100 0 ''Breakout'')\<lparr> Trade.session := Asian \<rparr>,
      (mk_trade 3 Win 1 100 100 ''Pullback'')\<lparr> Trade.session := NY \<rparr>]"

text \<open>Five trades entered out of date order, and the same trades by date.\<close>

definition unsorted_example :: "Trade list" where
  "unsorted_example =
     [mk_trade 1 Win 1 100 100 ''Breakout'', mk_trade 3 Win 2 100 200 ''Breakout'',
      mk_trade 2 Loss (-1) 100 0 ''Pullback'', mk_trade 5 Win 1 100 100 ''Breakout'',
      mk_trade 4 BE 0 100 0 ''Pullback'']"

definition unsorted_example_by_date :: "Trade list" where
  "unsorted_example_by_date =
     [mk_trade 1 Win 1 100 100 ''Breakout'', mk_trade 2 Loss (-1) 100 0 ''Pullback'',
      mk_trade 3 Win 2 100 200 ''Breakout'', mk_trade 4 BE 0 100 0 ''Pullback'',
      mk_trade 5 Win 1 100 100 ''Breakout'']"

text \<open>
  Six trades whose three losses are the oldest, six whose three losses are the latest,
  and each of the two with the latest trade first.
\<close>

definition old_losses_example :: "Trade list" where
  "old_losses_example =
     [mk_trade 1 Loss (-1) 100 0 ''Breakout'', mk_trade 4 Win 1 100 100 ''Breakout'',
      mk_trade 2 Loss (-1) 100 0 ''Pullback'', mk_trade 5 Win 1 100 100 ''Breakout'',
      mk_trade 3 Loss (-1) 100 0 ''Breakout'', mk_trade 6 Win 1 100 100 ''Pullback'']"

definition old_losses_latest_first :: "Trade list" where
  "old_losses_latest_first =
     [mk_trade 6 Win 1 100 100 ''Pullback'', mk_trade 5 Win 1 100 100 ''Breakout'',
      mk_trade 4 Win 1 100 100 ''Breakout'', mk_trade 3 Loss (-1) 100 0 ''Breakout'',
      mk_trade 2 Loss (-1) 100 0 ''Pullback'', mk_trade 1 Loss (-1) 100 0 ''Breakout'']"

definition recent_losses_example :: "Trade list" where
  "recent_losses_example =
     [mk_trade 1 Win 1 100 100 ''Breakout'', mk_trade 4 Loss (-1) 100 0 ''Breakout'',
      mk_trade 2 Win 1 100 100 ''Pullback'', mk_trade 5 Loss (-1) 100 0 ''Breakout'',
      mk_trade 3 Win 1 100 100 ''Breakout'', mk_trade 6 Loss (-1) 100 0 ''Pullback'']"

definition recent_losses_latest_first :: "Trade list" where
  "recent_losses_latest_first =
     [mk_trade 6 Loss (-1) 100 0 ''Pullback'', mk_trade 5 Loss (-1) 100 0 ''Breakout'',
      mk_trade 4 Loss (-1) 100 0 ''Breakout'', mk_trade 3 Win 1 100 100 ''Breakout'',
      mk_trade 2 Win 1 100 100 ''Pullback'', mk_trade 1 Win 1 100 100 ''Breakout'']"

text \<open>
  One losing trade; two trades with r-multiple \<open>2^1023\<close>; the same two trades entered
  after a later one with r-multiple \<open>-2^1023\<close>, and these three by date; a win of
  \<open>2^1023\<close> against a loss of a quarter; a win of \<open>2^-1074\<close>, the least positive binary64
  number, against a loss of 4.
\<close>

definition single_loss_example :: "Trade list" where
  "single_loss_example = [mk_trade 1 Loss (-1) 100 0 ''Breakout'']"

definition overflow_example :: "Trade list" where
  "overflow_example =
     [mk_trade 1 Win (2 ^ 1023) 100 100 ''Breakout'',
      mk_trade 2 Win (2 ^ 1023) 100 100 ''Breakout'']"

definition unsorted_overflow_example :: "Trade list" where
  "unsorted_overflow_example =
     [mk_trade 3 Loss (- (2 ^ 1023)) 100 0 ''Breakout'',
      mk_trade 1 Win (2 ^ 1023) 100 100 ''Breakout'',
      mk_trade 2 Win (2 ^ 1023) 100 100 ''Breakout'']"

definition unsorted_overflow_by_date :: "Trade list" where
  "unsorted_overflow_by_date =
     [mk_trade 1 Win (2 ^ 1023) 100 100 ''Breakout'',
      mk_trade 2 Win (2 ^ 1023) 100 100 ''Breakout'',
      mk_trade 3 Loss (- (2 ^ 1023)) 100 0 ''Breakout'']"

definition quotient_overflow_example :: "Trade list" where
  "quotient_overflow_example =
     [mk_trade 1 Win 1 1 (2 ^ 1023) ''Breakout'', mk_trade 2 Loss (-1) (1 / 4) 0 ''Breakout'']"

definition quotient_underflow_example :: "Trade list" where
  "quotient_underflow_example =
     [mk_trade 1 Win 1 1 (2 powi (- 1074)) ''Breakout'', mk_trade 2 Loss (-1) 4 0 ''Breakout'']"

text \<open>
  The invariant of the entries of \<^verbatim>\<open>monthlyData\<close> between two iterations of the loop of
  \<^verbatim>\<open>calculateMonthlyPerformance\<close>.
\<close>

definition month_ok :: "MonthData \<Rightarrow> bool" where
  "month_ok d = (1 \<le> MonthData.trades d \<and> MonthData.wins d \<le> MonthData.trades d)"

text \<open>The increment the loop of \<^verbatim>\<open>calculateEquityCurve\<close> adds for one trade.\<close>

definition equity_increment :: "Trade \<Rightarrow> real" where
  "equity_increment trade =
     rewardAmount trade - (if result trade = Loss then riskAmount trade else 0)"

section \<open>Properties of calculateEquityCurve\<close>

lemma equity_loop_length:
  "length (equity_loop s ts b curve) = length curve + length ts"
  by (induction ts arbitrary: b curve) (simp_all add: Let_def)

lemma equity_curve_length:
  "length (calculateEquityCurve ts s) = length ts + 1"
  by (simp add: calculateEquityCurve_def equity_loop_length sortedTrades_def)

text \<open>
  What the loop computes: each point's balance is the balance of the point before it plus
  \<open>equity_increment\<close> of the trade, and the last balance is the starting balance plus the
  sum of the increments. Where every trade that is not a win has reward amount 0 (as the
  trades saved by the entry dialog have), \<open>equity_increment\<close> and \<open>balanceChange\<close> agree.
\<close>

lemma equity_loop_prefix: "\<exists>ys. equity_loop s ts b curve = curve @ ys"
proof (induction ts arbitrary: b curve)
  case Nil
  show ?case by simp
next
  case (Cons t ts)
  let ?b = "b + equity_increment t"
  let ?p = "\<lparr> label = DateLabel (date t), equity = ?b - s, balance = ?b \<rparr>"
  from Cons.IH [of ?b "curve @ [?p]"]
  obtain ys where "equity_loop s ts ?b (curve @ [?p]) = (curve @ [?p]) @ ys" by blast
  then have "equity_loop s (t # ts) b curve = curve @ (?p # ys)"
    by (simp add: Let_def equity_increment_def)
  then show ?case by blast
qed

lemma equity_loop_nth_prefix:
  "j < length curve \<Longrightarrow> equity_loop s ts b curve ! j = curve ! j"
  using equity_loop_prefix [of s ts b curve] by (auto simp: nth_append)

lemma equity_loop_step:
  "i < length ts \<Longrightarrow> curve \<noteq> [] \<Longrightarrow> balance (last curve) = b \<Longrightarrow>
   balance (equity_loop s ts b curve ! (length curve + i))
     = balance (equity_loop s ts b curve ! (length curve + i - 1)) + equity_increment (ts ! i)"
proof (induction ts arbitrary: b curve i)
  case Nil
  then show ?case by simp
next
  case (Cons t ts)
  let ?b = "b + equity_increment t"
  let ?p = "\<lparr> label = DateLabel (date t), equity = ?b - s, balance = ?b \<rparr>"
  let ?c = "equity_loop s ts ?b (curve @ [?p])"
  have unfold: "equity_loop s (t # ts) b curve = ?c"
    by (simp add: Let_def equity_increment_def)
  show ?case
  proof (cases i)
    case 0
    have "?c ! length curve = (curve @ [?p]) ! length curve"
      by (rule equity_loop_nth_prefix) simp
    moreover have "?c ! (length curve - 1) = (curve @ [?p]) ! (length curve - 1)"
      by (rule equity_loop_nth_prefix) simp
    moreover have "(curve @ [?p]) ! (length curve - 1) = last curve"
      using Cons.prems(2) by (simp add: nth_append last_conv_nth)
    ultimately show ?thesis using 0 Cons.prems(3) unfold by simp
  next
    case (Suc k)
    then have k: "k < length ts" using Cons.prems(1) by simp
    have "balance (?c ! (length (curve @ [?p]) + k))
        = balance (?c ! (length (curve @ [?p]) + k - 1)) + equity_increment (ts ! k)"
      by (rule Cons.IH [OF k]) simp_all
    then show ?thesis using Suc unfold by simp
  qed
qed

lemma equity_curve_step:
  assumes "i < length ts"
  shows "balance (calculateEquityCurve ts s ! (i + 1))
       = balance (calculateEquityCurve ts s ! i) + equity_increment (sortedTrades ts ! i)"
proof -
  have "i < length (sortedTrades ts)" using assms by (simp add: sortedTrades_def)
  from equity_loop_step [OF this, of "[\<lparr> label = Start, equity = 0, balance = s \<rparr>]" s s]
  show ?thesis by (simp add: calculateEquityCurve_def)
qed

lemma equity_loop_last:
  "curve \<noteq> [] \<Longrightarrow> balance (last curve) = b \<Longrightarrow>
   balance (last (equity_loop s ts b curve)) = b + sum_list (map equity_increment ts)"
proof (induction ts arbitrary: b curve)
  case Nil
  then show ?case by simp
next
  case (Cons t ts)
  let ?b = "b + equity_increment t"
  let ?p = "\<lparr> label = DateLabel (date t), equity = ?b - s, balance = ?b \<rparr>"
  have unfold: "equity_loop s (t # ts) b curve = equity_loop s ts ?b (curve @ [?p])"
    by (simp add: Let_def equity_increment_def)
  have "balance (last (equity_loop s ts ?b (curve @ [?p]))) = ?b + sum_list (map equity_increment ts)"
    by (rule Cons.IH) simp_all
  then show ?case unfolding unfold by simp
qed

lemma sum_list_insort_key:
  "sum_list (map f (insort_key k x xs)) = (f x :: real) + sum_list (map f xs)"
  by (induction xs) simp_all

lemma sum_list_sort_key:
  "sum_list (map f (sort_key k xs)) = (sum_list (map f xs) :: real)"
  by (induction xs) (simp_all add: sum_list_insort_key)

lemma equity_curve_last_balance:
  "balance (last (calculateEquityCurve ts s)) = s + sum_list (map equity_increment ts)"
  using equity_loop_last [of "[\<lparr> label = Start, equity = 0, balance = s \<rparr>]" s s "sortedTrades ts"]
  by (simp add: calculateEquityCurve_def sortedTrades_def sum_list_sort_key)

lemma equity_increment_balanceChange:
  "(result t \<noteq> Win \<longrightarrow> rewardAmount t = 0) \<Longrightarrow> equity_increment t = balanceChange t"
  by (cases "result t") (simp_all add: equity_increment_def balanceChange_def)

lemma equity_curve_last_balance_reward_on_wins:
  assumes "\<forall>t\<in>set ts. result t \<noteq> Win \<longrightarrow> rewardAmount t = 0"
  shows "balance (last (calculateEquityCurve ts s)) = s + sum_list (map balanceChange ts)"
proof -
  have "map equity_increment ts = map balanceChange ts"
    using assms by (simp add: equity_increment_balanceChange)
  then have "sum_list (map equity_increment ts) = sum_list (map balanceChange ts)"
    by (rule arg_cong)
  then show ?thesis unfolding equity_curve_last_balance by simp
qed

lemma equity_curve_step_reward_on_wins:
  assumes "\<forall>t\<in>set ts. result t \<noteq> Win \<longrightarrow> rewardAmount t = 0" and "i < length ts"
  shows "balance (calculateEquityCurve ts s ! (i + 1))
       = balance (calculateEquityCurve ts s ! i) + balanceChange (sortedTrades ts ! i)"
proof -
  have "sortedTrades ts ! i \<in> set ts"
    using assms(2) by (metis length_sort nth_mem set_sort sortedTrades_def)
  then show ?thesis
    using assms equity_curve_step [OF assms(2), of s] by (simp add: equity_increment_balanceChange)
qed

text \<open>
  C1. The claim: every per-trade point's balance is the previous balance plus the reward
  amount if the trade is a win, minus the risk amount if it is a loss, and unchanged for a
  breakeven trade. The code adds \<^verbatim>\<open>rewardAmount\<close> whatever the outcome: on a single
  breakeven trade with reward amount 50 and starting balance 10000 the curve ends at
  10050, where the claim (and \<^verbatim>\<open>handleAddTrade\<close>) give 10000.
\<close>

theorem equity_curve_breakeven_reward:
  "map balance (calculateEquityCurve [mk_trade 1 BE 0 100 50 ''Breakout''] 10000) = [10000, 10050]
   \<and> 10000 + balanceChange (mk_trade 1 BE 0 100 50 ''Breakout'') = 10000"
  by (simp add: calculateEquityCurve_def sortedTrades_def mk_trade_def balanceChange_def)

section \<open>Properties of calculateStats\<close>

subsection \<open>Maximum drawdown\<close>

text \<open>
  C3, as claimed, fails: the peak starts at 0, so a single trade with r-multiple \<open>-1\<close>
  already is a drawdown of 1 from the starting equity.
\<close>

theorem maxDrawdown_single_loss:
  "maxDrawdown (calculateStats [mk_trade 1 Loss (-1) 100 0 ''Breakout'']) = 1"
  by (simp add: calculateStats_def Let_def sortedTrades_def mk_trade_def)

text \<open>
  C3, amended. The maximum drawdown of the empty collection is 0, and that of a single
  trade is the larger of 0 and the negated r-multiple of the trade: 0 when the r-multiple
  is not negative, and the size of the loss (in R) otherwise.
\<close>

theorem maxDrawdown_at_most_one:
  "maxDrawdown (calculateStats []) = 0
   \<and> maxDrawdown (calculateStats [t]) = max 0 (- rMultiple t)"
  by (simp add: calculateStats_def Let_def sortedTrades_def)

subsection \<open>Streaks\<close>

lemma has_run_iff:
  "has_run r n xs \<longleftrightarrow> (\<exists>i. i + n \<le> length xs \<and> (\<forall>j<n. xs ! (i + j) = r))"
proof
  assume "has_run r n xs"
  then have "\<exists>i\<in>set [0..<Suc (length xs)]. take n (drop i xs) = replicate n r"
    unfolding has_run_def list_ex_iff .
  then obtain i where i: "take n (drop i xs) = replicate n r"
    and mem: "i \<in> set [0..<Suc (length xs)]" by blast
  from mem have il: "i \<le> length xs" by auto
  from i have "length (take n (drop i xs)) = n" by simp
  then have len: "i + n \<le> length xs" using il by (cases "n = 0") auto
  have "\<forall>j<n. xs ! (i + j) = r"
  proof (intro allI impI)
    fix j assume j: "j < n"
    have "take n (drop i xs) ! j = r" using i j by simp
    then show "xs ! (i + j) = r" using j len by simp
  qed
  with len show "\<exists>i. i + n \<le> length xs \<and> (\<forall>j<n. xs ! (i + j) = r)" by blast
next
  assume "\<exists>i. i + n \<le> length xs \<and> (\<forall>j<n. xs ! (i + j) = r)"
  then obtain i where len: "i + n \<le> length xs" and all: "\<forall>j<n. xs ! (i + j) = r" by blast
  have "take n (drop i xs) = replicate n r"
    using len all by (auto simp: list_eq_iff_nth_eq)
  moreover have "i \<in> set [0..<Suc (length xs)]" using len by auto
  ultimately show "has_run r n xs" unfolding has_run_def list_ex_iff by blast
qed

lemma has_run_prefix_le: "n \<le> c \<Longrightarrow> has_run r n (replicate c r @ xs)"
  unfolding has_run_iff by (rule exI[of _ 0]) (auto simp: nth_append)

lemma has_run_append: "has_run r n xs \<Longrightarrow> has_run r n (ys @ xs)"
  unfolding has_run_iff
proof -
  assume "\<exists>i. i + n \<le> length xs \<and> (\<forall>j<n. xs ! (i + j) = r)"
  then obtain i where "i + n \<le> length xs" "\<forall>j<n. xs ! (i + j) = r" by blast
  then have "(length ys + i) + n \<le> length (ys @ xs) \<and> (\<forall>j<n. (ys @ xs) ! ((length ys + i) + j) = r)"
    by (auto simp: nth_append)
  then show "\<exists>i. i + n \<le> length (ys @ xs) \<and> (\<forall>j<n. (ys @ xs) ! (i + j) = r)" by blast
qed

lemma has_run_replicate: "has_run r n (replicate c r) \<Longrightarrow> n \<le> c"
  unfolding has_run_iff by auto

lemma has_run_break:
  assumes "x \<noteq> r" and "has_run r n (replicate c r @ x # xs)"
  shows "n \<le> c \<or> has_run r n xs"
proof -
  from assms(2) obtain i where len: "i + n \<le> c + Suc (length xs)"
    and all: "\<forall>j<n. (replicate c r @ x # xs) ! (i + j) = r"
    unfolding has_run_iff by auto
  show ?thesis
  proof (cases "i + n \<le> c")
    case True then show ?thesis by simp
  next
    case False
    have "c < i"
    proof (rule ccontr)
      assume "\<not> c < i"
      then have "c - i < n" "i + (c - i) = c" using False by auto
      with all have "(replicate c r @ x # xs) ! c = r" by metis
      then show False using assms(1) by (simp add: nth_append)
    qed
    then obtain k where k: "i = Suc (c + k)" by (metis less_iff_Suc_add)
    have "k + n \<le> length xs" using len k by simp
    moreover have "\<forall>j<n. xs ! (k + j) = r"
    proof (intro allI impI)
      fix j assume "j < n"
      with all have "(replicate c r @ x # xs) ! (i + j) = r" by blast
      then show "xs ! (k + j) = r" using k by (simp add: nth_append)
    qed
    ultimately have "has_run r n xs" unfolding has_run_iff by blast
    then show ?thesis by simp
  qed
qed

lemma has_run_break_iff:
  "x \<noteq> r \<Longrightarrow> has_run r n (replicate c r @ x # xs) \<longleftrightarrow> n \<le> c \<or> has_run r n xs"
  using has_run_break[of x r n c xs] has_run_prefix_le[of n c r "x # xs"]
    has_run_append[of r n xs "replicate c r @ [x]"] by auto

lemma streak_loop_wins:
  "cw \<le> mw \<Longrightarrow>
   n \<le> fst (streak_loop ts cw cl mw ml) \<longleftrightarrow>
     n \<le> mw \<or> has_run Win n (replicate cw Win @ map result ts)"
proof (induction ts arbitrary: cw cl mw ml)
  case Nil
  then show ?case using has_run_replicate[of Win n cw] by auto
next
  case (Cons t ts)
  show ?case
  proof (cases "result t = Win")
    case True
    have step: "streak_loop (t # ts) cw cl mw ml = streak_loop ts (cw + 1) 0 (max mw (cw + 1)) ml"
      using True by simp
    have ih: "n \<le> fst (streak_loop ts (cw + 1) 0 (max mw (cw + 1)) ml) \<longleftrightarrow>
          n \<le> max mw (cw + 1) \<or> has_run Win n (replicate (cw + 1) Win @ map result ts)"
      by (rule Cons.IH) simp
    have lst: "replicate cw Win @ map result (t # ts) = replicate (cw + 1) Win @ map result ts"
      using True by (simp add: replicate_app_Cons_same)
    have pre: "n \<le> cw + 1 \<Longrightarrow> has_run Win n (replicate (cw + 1) Win @ map result ts)"
      by (rule has_run_prefix_le)
    have mx: "n \<le> max mw (cw + 1) \<longleftrightarrow> n \<le> mw \<or> n \<le> cw + 1" by auto
    show ?thesis unfolding step lst ih mx using pre by blast
  next
    case False
    have IH: "\<And>cl' ml'. n \<le> fst (streak_loop ts 0 cl' mw ml') \<longleftrightarrow>
          n \<le> mw \<or> has_run Win n (replicate 0 Win @ map result ts)"
      by (rule Cons.IH) simp
    have "has_run Win n (replicate cw Win @ map result (t # ts)) \<longleftrightarrow> n \<le> cw \<or> has_run Win n (map result ts)"
      using False has_run_break_iff[of "result t" Win n cw "map result ts"] by simp
    then show ?thesis using False IH Cons.prems by auto
  qed
qed

lemma streak_loop_losses:
  "cl \<le> ml \<Longrightarrow>
   n \<le> snd (streak_loop ts cw cl mw ml) \<longleftrightarrow>
     n \<le> ml \<or> has_run Loss n (replicate cl Loss @ map result ts)"
proof (induction ts arbitrary: cw cl mw ml)
  case Nil
  then show ?case using has_run_replicate[of Loss n cl] by auto
next
  case (Cons t ts)
  show ?case
  proof (cases "result t = Loss")
    case True
    have step: "streak_loop (t # ts) cw cl mw ml = streak_loop ts 0 (cl + 1) mw (max ml (cl + 1))"
      using True by simp
    have ih: "n \<le> snd (streak_loop ts 0 (cl + 1) mw (max ml (cl + 1))) \<longleftrightarrow>
          n \<le> max ml (cl + 1) \<or> has_run Loss n (replicate (cl + 1) Loss @ map result ts)"
      by (rule Cons.IH) simp
    have lst: "replicate cl Loss @ map result (t # ts) = replicate (cl + 1) Loss @ map result ts"
      using True by (simp add: replicate_app_Cons_same)
    have pre: "n \<le> cl + 1 \<Longrightarrow> has_run Loss n (replicate (cl + 1) Loss @ map result ts)"
      by (rule has_run_prefix_le)
    have mx: "n \<le> max ml (cl + 1) \<longleftrightarrow> n \<le> ml \<or> n \<le> cl + 1" by auto
    show ?thesis unfolding step lst ih mx using pre by blast
  next
    case False
    have IH: "\<And>cw' mw'. n \<le> snd (streak_loop ts cw' 0 mw' ml) \<longleftrightarrow>
          n \<le> ml \<or> has_run Loss n (replicate 0 Loss @ map result ts)"
      by (rule Cons.IH) simp
    have "has_run Loss n (replicate cl Loss @ map result (t # ts)) \<longleftrightarrow> n \<le> cl \<or> has_run Loss n (map result ts)"
      using False has_run_break_iff[of "result t" Loss n cl "map result ts"] by simp
    then show ?thesis using False IH Cons.prems by auto
  qed
qed

lemma has_run_0: "has_run r 0 xs"
  unfolding has_run_iff by auto

lemma maxWins_iff: "n \<le> maxConsecutiveWins (calculateStats ts) \<longleftrightarrow> has_run Win n (map result (sortedTrades ts))"
proof (cases "ts = []")
  case True
  then show ?thesis using has_run_replicate[of Win n 0] has_run_0[of Win "[]"]
    by (auto simp: calculateStats_def sortedTrades_def)
next
  case False
  then show ?thesis
    using streak_loop_wins[of 0 0 n "sortedTrades ts" 0 0] has_run_0[of Win "map result (sortedTrades ts)"]
    by (cases "n = 0") (auto simp: calculateStats_def Let_def)
qed

lemma maxLosses_iff: "n \<le> maxConsecutiveLosses (calculateStats ts) \<longleftrightarrow> has_run Loss n (map result (sortedTrades ts))"
proof (cases "ts = []")
  case True
  then show ?thesis using has_run_replicate[of Loss n 0] has_run_0[of Loss "[]"]
    by (auto simp: calculateStats_def sortedTrades_def)
next
  case False
  then show ?thesis
    using streak_loop_losses[of 0 0 n "sortedTrades ts" 0 0] has_run_0[of Loss "map result (sortedTrades ts)"]
    by (cases "n = 0") (auto simp: calculateStats_def Let_def)
qed

subsection \<open>The order of the dates\<close>

lemma chronological_sortedTrades: "chronological ts (sortedTrades ts)"
  by (simp add: chronological_def sortedTrades_def sort_key_stable)

lemma chronological_unique:
  assumes "chronological ts xs"
  shows "xs = sortedTrades ts"
proof -
  from assms have m: "mset xs = mset ts"
    and s: "sorted (map (\<lambda>t. getTime (date t)) xs)"
    and f: "\<forall>t\<in>set ts. filter (\<lambda>u. getTime (date u) = getTime (date t)) xs
                     = filter (\<lambda>u. getTime (date u) = getTime (date t)) ts"
    by (simp_all add: chronological_def)
  from m have st: "set xs = set ts" by (rule mset_eq_setD)
  have "sort_key (\<lambda>t. getTime (date t)) ts = xs"
  proof (rule properties_for_sort_key [OF m _ s])
    fix k assume "k \<in> set xs"
    then have "k \<in> set ts" using st by simp
    with f have "filter (\<lambda>u. getTime (date u) = getTime (date k)) xs
                = filter (\<lambda>u. getTime (date u) = getTime (date k)) ts" by blast
    moreover have "filter (\<lambda>u. getTime (date k) = getTime (date u)) ys
                 = filter (\<lambda>u. getTime (date u) = getTime (date k)) ys" for ys :: "Trade list"
      by (rule filter_cong) auto
    ultimately show "filter (\<lambda>u. getTime (date k) = getTime (date u)) xs
                = filter (\<lambda>u. getTime (date k) = getTime (date u)) ts" by (simp only:)
  qed
  then show ?thesis by (simp add: sortedTrades_def)
qed

lemma sorted_map_uminus: "sorted (map uminus (ys :: int list)) = sorted (rev ys)"
  by (induction ys) (auto simp: sorted_append)

lemma sorted_neg_key: "sorted (map (\<lambda>t. - f t) xs) = sorted (rev (map (f :: 'a \<Rightarrow> int) xs))"
  using sorted_map_uminus [of "map f xs"] by (simp add: comp_def)

lemma latest_first_sort:
  "latest_first ts (sort_key (\<lambda>t. - getTime (date t)) ts)"
proof -
  let ?xs = "sort_key (\<lambda>t. - getTime (date t)) ts"
  have "sorted (map (\<lambda>t. - getTime (date t)) ?xs)" by simp
  then have "sorted (rev (map (\<lambda>t. getTime (date t)) ?xs))" by (simp only: sorted_neg_key)
  moreover have "filter (\<lambda>u. getTime (date u) = k) ?xs = filter (\<lambda>u. getTime (date u) = k) ts" for k
    using sort_key_stable [of "\<lambda>t. - getTime (date t)" "- k" ts] by simp
  ultimately show ?thesis by (simp add: latest_first_def)
qed

lemma latest_first_unique:
  assumes "latest_first ts xs"
  shows "xs = sort_key (\<lambda>t. - getTime (date t)) ts"
proof -
  from assms have m: "mset xs = mset ts"
    and s: "sorted (rev (map (\<lambda>t. getTime (date t)) xs))"
    and f: "\<forall>t\<in>set ts. filter (\<lambda>u. getTime (date u) = getTime (date t)) xs
                     = filter (\<lambda>u. getTime (date u) = getTime (date t)) ts"
    by (simp_all add: latest_first_def)
  from m have st: "set xs = set ts" by (rule mset_eq_setD)
  from s have s': "sorted (map (\<lambda>t. - getTime (date t)) xs)" by (simp only: sorted_neg_key)
  have "sort_key (\<lambda>t. - getTime (date t)) ts = xs"
  proof (rule properties_for_sort_key [OF m _ s'])
    fix k assume "k \<in> set xs"
    then have "k \<in> set ts" using st by simp
    with f have "filter (\<lambda>u. getTime (date u) = getTime (date k)) xs
                = filter (\<lambda>u. getTime (date u) = getTime (date k)) ts" by blast
    moreover have "filter (\<lambda>u. - getTime (date k) = - getTime (date u)) ys
                 = filter (\<lambda>u. getTime (date u) = getTime (date k)) ys" for ys :: "Trade list"
      by (rule filter_cong) auto
    ultimately show "filter (\<lambda>u. - getTime (date k) = - getTime (date u)) xs
                = filter (\<lambda>u. - getTime (date k) = - getTime (date u)) ts" by (simp only:)
  qed
  then show ?thesis by simp
qed
lemma streaks_of_nonempty:
  "ts \<noteq> [] \<Longrightarrow>
   maxConsecutiveWins (calculateStats ts) = fst (streak_loop (sortedTrades ts) 0 0 0 0)
   \<and> maxConsecutiveLosses (calculateStats ts) = snd (streak_loop (sortedTrades ts) 0 0 0 0)"
  by (simp add: calculateStats_def Let_def)

text \<open>
  C5. The trades have one chronological arrangement (dates ascending, trades of one date
  in input order), and in the outcomes of that arrangement \<^verbatim>\<open>maxConsecutiveWins\<close> is the
  length of the longest run of consecutive wins: there is a run of wins of that length and
  none is longer. \<^verbatim>\<open>maxConsecutiveLosses\<close> is the same for losses. A run is made of equal
  outcomes only, so a breakeven trade ends a run of wins and a run of losses alike.
\<close>

theorem streaks_longest_runs:
  "chronological ts (sortedTrades ts)
   \<and> (\<forall>xs. chronological ts xs \<longrightarrow>
        has_run Win (maxConsecutiveWins (calculateStats ts)) (map result xs)
        \<and> (\<forall>n. has_run Win n (map result xs) \<longrightarrow> n \<le> maxConsecutiveWins (calculateStats ts))
        \<and> has_run Loss (maxConsecutiveLosses (calculateStats ts)) (map result xs)
        \<and> (\<forall>n. has_run Loss n (map result xs)
               \<longrightarrow> n \<le> maxConsecutiveLosses (calculateStats ts)))"
proof (intro conjI allI impI)
  show "chronological ts (sortedTrades ts)" by (rule chronological_sortedTrades)
next
  fix xs assume "chronological ts xs"
  then have xs: "xs = sortedTrades ts" by (rule chronological_unique)
  show "has_run Win (maxConsecutiveWins (calculateStats ts)) (map result xs)"
    unfolding xs using maxWins_iff [of _ ts] by blast
  show "has_run Loss (maxConsecutiveLosses (calculateStats ts)) (map result xs)"
    unfolding xs using maxLosses_iff [of _ ts] by blast
  fix n
  show "has_run Win n (map result xs) \<Longrightarrow> n \<le> maxConsecutiveWins (calculateStats ts)"
    unfolding xs using maxWins_iff [of n ts] by blast
  show "has_run Loss n (map result xs) \<Longrightarrow> n \<le> maxConsecutiveLosses (calculateStats ts)"
    unfolding xs using maxLosses_iff [of n ts] by blast
qed

theorem streaks_longest_runs_witness:
  "chronological unsorted_example unsorted_example_by_date
   \<and> map result unsorted_example = [Win, Win, Loss, Win, BE]
   \<and> map result unsorted_example_by_date = [Win, Loss, Win, BE, Win]
   \<and> maxConsecutiveWins (calculateStats unsorted_example) = 1
   \<and> has_run Win 1 (map result unsorted_example_by_date)
   \<and> \<not> has_run Win 2 (map result unsorted_example_by_date)
   \<and> maxConsecutiveLosses (calculateStats unsorted_example) = 1
   \<and> has_run Loss 1 (map result unsorted_example_by_date)
   \<and> \<not> has_run Loss 2 (map result unsorted_example_by_date)"
proof -
  have c: "chronological unsorted_example unsorted_example_by_date"
    by (simp add: chronological_def unsorted_example_def unsorted_example_by_date_def
        mk_trade_def day_def)
  then have srt: "sortedTrades unsorted_example = unsorted_example_by_date"
    by (rule chronological_unique [symmetric])
  have ne: "unsorted_example \<noteq> []" by (simp add: unsorted_example_def)
  have i: "map result unsorted_example = [Win, Win, Loss, Win, BE]"
    by (simp add: unsorted_example_def mk_trade_def)
  have d: "map result unsorted_example_by_date = [Win, Loss, Win, BE, Win]"
    by (simp add: unsorted_example_by_date_def mk_trade_def)
  have w: "maxConsecutiveWins (calculateStats unsorted_example) = 1"
    and l: "maxConsecutiveLosses (calculateStats unsorted_example) = 1"
    using streaks_of_nonempty [OF ne] unfolding srt
    by (simp_all add: unsorted_example_by_date_def mk_trade_def)
  from streaks_longest_runs [of unsorted_example] c
  have "has_run Win (maxConsecutiveWins (calculateStats unsorted_example))
          (map result unsorted_example_by_date)
      \<and> (\<forall>n. has_run Win n (map result unsorted_example_by_date)
            \<longrightarrow> n \<le> maxConsecutiveWins (calculateStats unsorted_example))
      \<and> has_run Loss (maxConsecutiveLosses (calculateStats unsorted_example))
          (map result unsorted_example_by_date)
      \<and> (\<forall>n. has_run Loss n (map result unsorted_example_by_date)
            \<longrightarrow> n \<le> maxConsecutiveLosses (calculateStats unsorted_example))"
    by blast
  then have "has_run Win 1 (map result unsorted_example_by_date)"
    and "has_run Win 2 (map result unsorted_example_by_date) \<longrightarrow> (2::nat) \<le> 1"
    and "has_run Loss 1 (map result unsorted_example_by_date)"
    and "has_run Loss 2 (map result unsorted_example_by_date) \<longrightarrow> (2::nat) \<le> 1"
    unfolding w l by blast+
  with c i d w l show ?thesis by simp
qed

section \<open>Properties of calculateSessionStats and of the best and worst categories\<close>

lemma session_str_in_sessions: "session_str x \<in> set sessions"
  by (cases x) (simp_all add: sessions_def)

lemma session_entry_session [simp]: "SessionStats.session (session_entry ts s) = s"
  by (simp add: session_entry_def Let_def)

lemma session_entry_trades:
  "SessionStats.trades (session_entry ts s) = length (filter (\<lambda>t. session_str (Trade.session t) = s) ts)"
  by (simp add: session_entry_def Let_def)

lemma session_entry_trades_pos:
  "0 < SessionStats.trades (session_entry ts s) \<longleftrightarrow> (\<exists>t\<in>set ts. session_str (Trade.session t) = s)"
  by (auto simp add: session_entry_trades filter_empty_conv)

lemma sessionStats_keys:
  "map SessionStats.session (calculateSessionStats ts)
     = filter (\<lambda>s. \<exists>t\<in>set ts. session_str (Trade.session t) = s) sessions"
proof -
  have "map SessionStats.session (filter (\<lambda>e. 0 < SessionStats.trades e) (map (session_entry ts) xs))
        = filter (\<lambda>s. \<exists>t\<in>set ts. session_str (Trade.session t) = s) xs" for xs
    by (induction xs) (simp_all add: session_entry_trades_pos)
  then show ?thesis by (simp add: calculateSessionStats_def)
qed
lemma sessionStats_entry_ok:
  "e \<in> set (calculateSessionStats ts) \<Longrightarrow>
     1 \<le> SessionStats.trades e \<and> SessionStats.session e \<in> set sessions"
  by (auto simp: calculateSessionStats_def)

text \<open>
  C6. Every entry of \<^verbatim>\<open>calculateSessionStats\<close> counts at least one trade and its key is
  one of the five session names; the keys of the result are the declared list \<open>sessions\<close>
  with the names that no trade carries left out, so they stand in the declared order.
\<close>

theorem sessionStats_entries:
  "(\<forall>e\<in>set (calculateSessionStats ts).
       1 \<le> SessionStats.trades e \<and> SessionStats.session e \<in> set sessions)
   \<and> map SessionStats.session (calculateSessionStats ts)
       = filter (\<lambda>s. \<exists>t\<in>set ts. session_str (Trade.session t) = s) sessions"
  using sessionStats_keys [of ts] sessionStats_entry_ok [of _ ts] by blast

theorem sessionStats_entries_witness:
  "map SessionStats.session (calculateSessionStats session_example) = [''Asian'', ''NY'']
   \<and> map SessionStats.trades (calculateSessionStats session_example) = [1, 2]
   \<and> hd (calculateSessionStats session_example) \<in> set (calculateSessionStats session_example)
   \<and> 1 \<le> SessionStats.trades (hd (calculateSessionStats session_example))
   \<and> SessionStats.session (hd (calculateSessionStats session_example)) \<in> set sessions"
proof -
  have k: "map SessionStats.session (calculateSessionStats session_example) = [''Asian'', ''NY'']"
    by (simp add: calculateSessionStats_def session_entry_def sessions_def session_example_def
        mk_trade_def Let_def)
  have n: "map SessionStats.trades (calculateSessionStats session_example) = [1, 2]"
    by (simp add: calculateSessionStats_def session_entry_def sessions_def session_example_def
        mk_trade_def Let_def)
  from k have "calculateSessionStats session_example \<noteq> []" by auto
  then have h: "hd (calculateSessionStats session_example) \<in> set (calculateSessionStats session_example)"
    by simp
  from sessionStats_entries [of session_example] h k n show ?thesis by blast
qed

lemma sessionStats_nonempty: "ts \<noteq> [] \<Longrightarrow> calculateSessionStats ts \<noteq> []"
proof -
  assume "ts \<noteq> []"
  then obtain t where t: "t \<in> set ts" by (cases ts) auto
  have "session_str (Trade.session t) \<in> set (map SessionStats.session (calculateSessionStats ts))"
    unfolding sessionStats_keys using t session_str_in_sessions by auto
  then show ?thesis by auto
qed

lemma foldl_pick_mem:
  "foldl (\<lambda>best curr. if b curr best then curr else best) x xs \<in> insert x (set xs)"
  by (induction xs arbitrary: x) (auto split: if_splits)

lemma reduce_pick_mem:
  "xs \<noteq> [] \<Longrightarrow> \<exists>y\<in>set xs. reduce_pick b xs = Some y"
  using foldl_pick_mem[of b "hd xs" xs] by (cases xs) (auto simp: reduce_pick_def)

lemma set_new_Set_aux: "set (foldl set_insert acc xs) = set acc \<union> set xs"
  by (induction xs arbitrary: acc) (auto simp: set_insert_def)

lemma set_new_Set [simp]: "set (new_Set xs) = set xs"
  by (simp add: new_Set_def set_new_Set_aux)

lemma setup_entry_name [simp]: "SetupStats.setupName (setup_entry ts s) = s"
  by (simp add: setup_entry_def Let_def)

lemma setup_entry_trades_pos:
  "0 < SetupStats.trades (setup_entry ts s) \<longleftrightarrow> s \<in> setupTag ` set ts"
  by (auto simp add: setup_entry_def Let_def filter_empty_conv)

lemma set_setupStats:
  "set (calculateSetupStats ts) = setup_entry ts ` setupTag ` set ts"
  by (auto simp: calculateSetupStats_def setup_entry_trades_pos)

lemma setupStats_nonempty: "ts \<noteq> [] \<Longrightarrow> calculateSetupStats ts \<noteq> []"
proof -
  assume "ts \<noteq> []"
  then have "set (calculateSetupStats ts) \<noteq> {}" unfolding set_setupStats by simp
  then show ?thesis by auto
qed

lemma NA_not_session: "''N/A'' \<notin> set sessions"
  by (simp add: sessions_def)

lemma best_session_in:
  assumes "ts \<noteq> []"
  shows "or_NA (map_option SessionStats.session (reduce_pick b (calculateSessionStats ts))) \<in> set sessions"
proof -
  from reduce_pick_mem[OF sessionStats_nonempty[OF assms], of b]
  obtain y where y: "y \<in> set (calculateSessionStats ts)" "reduce_pick b (calculateSessionStats ts) = Some y"
    by blast
  from y(1) have "SessionStats.session y \<in> set sessions"
    by (rule sessionStats_entry_ok [THEN conjunct2])
  moreover from this have "SessionStats.session y \<noteq> []" by (auto simp: sessions_def)
  ultimately show ?thesis using y(2) by (simp add: or_NA_def)
qed

lemma best_setup_in:
  assumes "ts \<noteq> []"
  shows "\<exists>t\<in>set ts. or_NA (map_option SetupStats.setupName (reduce_pick b (calculateSetupStats ts)))
            = (if setupTag t = [] then ''N/A'' else setupTag t)"
proof -
  from reduce_pick_mem[OF setupStats_nonempty[OF assms], of b]
  obtain y where y: "y \<in> set (calculateSetupStats ts)" "reduce_pick b (calculateSetupStats ts) = Some y"
    by blast
  from y(1) obtain t where t: "t \<in> set ts" "y = setup_entry ts (setupTag t)"
    unfolding set_setupStats by blast
  have "or_NA (map_option SetupStats.setupName (reduce_pick b (calculateSetupStats ts)))
            = (if setupTag t = [] then ''N/A'' else setupTag t)"
    using y(2) t(2) by (simp add: or_NA_def)
  with t(1) show ?thesis by blast
qed

lemma stats_best_fields:
  assumes "ts \<noteq> []"
  shows "bestSession (calculateStats ts) = or_NA (map_option SessionStats.session
            (reduce_pick (\<lambda>curr best. SessionStats.avgR curr > SessionStats.avgR best) (calculateSessionStats ts)))"
    and "worstSession (calculateStats ts) = or_NA (map_option SessionStats.session
            (reduce_pick (\<lambda>curr worst. SessionStats.avgR curr < SessionStats.avgR worst) (calculateSessionStats ts)))"
    and "bestSetup (calculateStats ts) = or_NA (map_option SetupStats.setupName
            (reduce_pick (\<lambda>curr best. SetupStats.avgR curr > SetupStats.avgR best) (calculateSetupStats ts)))"
    and "worstSetup (calculateStats ts) = or_NA (map_option SetupStats.setupName
            (reduce_pick (\<lambda>curr worst. SetupStats.avgR curr < SetupStats.avgR worst) (calculateSetupStats ts)))"
  using assms setupStats_nonempty[OF assms] by (simp_all add: calculateStats_def Let_def)
text \<open>
  C9, as claimed, fails: \<^verbatim>\<open>setupTag\<close> is any string, and for a trade whose tag is the
  empty string \<^verbatim>\<open>bestSetup?.setup || 'N/A'\<close> is \<^verbatim>\<open>'N/A'\<close>.
\<close>

theorem bestSetup_NA_for_empty_tag:
  "[mk_trade 1 Win 2 100 200 ''''] \<noteq> []
   \<and> bestSetup (calculateStats [mk_trade 1 Win 2 100 200 '''']) = ''N/A''
   \<and> worstSetup (calculateStats [mk_trade 1 Win 2 100 200 '''']) = ''N/A''"
  by (simp add: calculateStats_def Let_def calculateSetupStats_def new_Set_def set_insert_def
      setup_entry_def reduce_pick_def or_NA_def mk_trade_def)

text \<open>
  C9, amended. For every non-empty trade collection \<^verbatim>\<open>bestSession\<close> and
  \<^verbatim>\<open>worstSession\<close> are one of the five session names, hence not \<^verbatim>\<open>'N/A'\<close>.
  \<^verbatim>\<open>bestSetup\<close> and \<^verbatim>\<open>worstSetup\<close> are the setup tag of a trade of the collection, or
  \<^verbatim>\<open>'N/A'\<close> where that tag is the empty string; so they are not \<^verbatim>\<open>'N/A'\<close> when no
  trade's setup tag is empty or the text \<^verbatim>\<open>'N/A'\<close> itself.
\<close>

theorem best_worst_not_NA:
  assumes "ts \<noteq> []"
  shows "bestSession (calculateStats ts) \<in> set sessions
       \<and> worstSession (calculateStats ts) \<in> set sessions
       \<and> bestSession (calculateStats ts) \<noteq> ''N/A''
       \<and> worstSession (calculateStats ts) \<noteq> ''N/A''
       \<and> (\<exists>t\<in>set ts. bestSetup (calculateStats ts) = (if setupTag t = [] then ''N/A'' else setupTag t))
       \<and> (\<exists>t\<in>set ts. worstSetup (calculateStats ts) = (if setupTag t = [] then ''N/A'' else setupTag t))
       \<and> ((\<forall>t\<in>set ts. setupTag t \<noteq> [] \<and> setupTag t \<noteq> ''N/A'') \<longrightarrow>
             bestSetup (calculateStats ts) \<noteq> ''N/A'' \<and> worstSetup (calculateStats ts) \<noteq> ''N/A'')"
proof -
  have bs: "bestSession (calculateStats ts) \<in> set sessions"
    and ws: "worstSession (calculateStats ts) \<in> set sessions"
    unfolding stats_best_fields[OF assms] by (rule best_session_in[OF assms])+
  obtain t1 where t1: "t1 \<in> set ts"
     "bestSetup (calculateStats ts) = (if setupTag t1 = [] then ''N/A'' else setupTag t1)"
    unfolding stats_best_fields[OF assms] using best_setup_in[OF assms] by blast
  obtain t2 where t2: "t2 \<in> set ts"
     "worstSetup (calculateStats ts) = (if setupTag t2 = [] then ''N/A'' else setupTag t2)"
    unfolding stats_best_fields[OF assms] using best_setup_in[OF assms] by blast
  have "(\<forall>t\<in>set ts. setupTag t \<noteq> [] \<and> setupTag t \<noteq> ''N/A'') \<longrightarrow>
             bestSetup (calculateStats ts) \<noteq> ''N/A'' \<and> worstSetup (calculateStats ts) \<noteq> ''N/A''"
    using t1 t2 by auto
  moreover have "bestSession (calculateStats ts) \<noteq> ''N/A''" "worstSession (calculateStats ts) \<noteq> ''N/A''"
    using bs ws NA_not_session by auto
  ultimately show ?thesis using bs ws t1 t2 by blast
qed
theorem best_worst_not_NA_witness:
  "win_loss_example \<noteq> []
   \<and> map setupTag win_loss_example = [''Breakout'', ''Breakout'']
   \<and> bestSession (calculateStats win_loss_example) \<noteq> ''N/A''
   \<and> worstSession (calculateStats win_loss_example) \<noteq> ''N/A''
   \<and> bestSetup (calculateStats win_loss_example) \<noteq> ''N/A''
   \<and> worstSetup (calculateStats win_loss_example) \<noteq> ''N/A''"
proof -
  have ne: "win_loss_example \<noteq> []" by (simp add: win_loss_example_def)
  have tags: "\<forall>t\<in>set win_loss_example. setupTag t \<noteq> [] \<and> setupTag t \<noteq> ''N/A''"
    by (simp add: win_loss_example_def mk_trade_def)
  have m: "map setupTag win_loss_example = [''Breakout'', ''Breakout'']"
    by (simp add: win_loss_example_def mk_trade_def)
  from best_worst_not_NA [OF ne] tags ne m show ?thesis by blast
qed

section \<open>Properties of generateInsights\<close>

text \<open>
  C8. For the empty trade collection and any statistics \<^verbatim>\<open>generateInsights\<close> returns
  the list that holds the onboarding string and nothing else: no other rule adds to it.
\<close>

theorem insights_empty: "generateInsights [] stats = [Onboarding]"
  by (simp add: generateInsights_def)

lemma no_clw1: "filter is_ConsecutiveLossesWarning (bestSessionRule ts stats) = []"
  unfolding bestSessionRule_def
  apply (cases "bestSession stats = ''N/A''")
   apply simp
  apply (simp only: if_True if_False not_False_eq_True not_True_eq_False)
  apply (simp split: option.split)
  done

lemma no_clw2: "filter is_ConsecutiveLossesWarning (worstSessionRule ts stats) = []"
  unfolding worstSessionRule_def
  apply (cases "worstSession stats = ''N/A''")
   apply simp
  apply (simp only: if_True if_False not_False_eq_True not_True_eq_False)
  apply (simp split: option.split)
  done

lemma no_clw3: "filter is_ConsecutiveLossesWarning (bestSetupRule ts stats) = []"
  unfolding bestSetupRule_def
  apply (cases "bestSetup stats = ''N/A''")
   apply simp
  apply (simp only: if_True if_False not_False_eq_True not_True_eq_False)
  apply (simp split: option.split)
  done

lemma no_clw4: "filter is_ConsecutiveLossesWarning (riskRule ts) = []"
  by (simp add: riskRule_def Let_def)

lemma no_clw5: "filter is_ConsecutiveLossesWarning (winRateRule ts stats) = []"
  by (simp add: winRateRule_def)

lemma no_clw6: "filter is_ConsecutiveLossesWarning (profitFactorRule stats) = []"
  by (simp add: profitFactorRule_def)

lemma no_clw7: "filter is_ConsecutiveLossesWarning (emotionRule ts) = []"
  by (simp add: emotionRule_def Let_def split: option.splits)

lemmas no_clw = no_clw1 no_clw2 no_clw3 no_clw4 no_clw5 no_clw6 no_clw7
text \<open>
  \<open>recentTrades\<close> holds five trades (all of them when there are fewer), and no trade
  left out of it is dated later than one it holds.
\<close>

lemma recentTrades_length: "length (recentTrades ts) = min 5 (length ts)"
  by (simp add: recentTrades_def)

lemma recentTrades_most_recent:
  assumes "r \<in> set (recentTrades ts)"
    and "t \<in> set (drop 5 (sort_key (\<lambda>t. - getTime (date t)) ts))"
  shows "getTime (date t) \<le> getTime (date r)"
proof -
  let ?xs = "sort_key (\<lambda>t. - getTime (date t)) ts"
  have "sorted (map (\<lambda>t. - getTime (date t)) (take 5 ?xs @ drop 5 ?xs))"
    by simp
  then have "\<forall>x\<in>set (take 5 ?xs). \<forall>y\<in>set (drop 5 ?xs). - getTime (date x) \<le> - getTime (date y)"
    unfolding map_append sorted_append by auto
  then show ?thesis using assms by (auto simp: recentTrades_def)
qed

text \<open>
  C7. The trades have one arrangement with the latest date first (trades of one date in
  input order); its first five trades are the five most recently dated. For a non-empty
  trade collection the consecutive-loss warnings in the result of \<^verbatim>\<open>generateInsights\<close>
  are: exactly one, carrying \<^verbatim>\<open>stats.maxConsecutiveLosses\<close>, when that number is at least
  3 and at least 3 of those five trades are losses; none otherwise.
\<close>

theorem consecutive_loss_warning:
  assumes "ts \<noteq> []"
  shows "latest_first ts (sort_key (\<lambda>t. - getTime (date t)) ts)
       \<and> (\<forall>xs. latest_first ts xs \<longrightarrow>
            filter is_ConsecutiveLossesWarning (generateInsights ts stats)
            = (if 3 \<le> maxConsecutiveLosses stats
                  \<and> 3 \<le> length (filter (\<lambda>t. result t = Loss) (take 5 xs))
               then [ConsecutiveLossesWarning (maxConsecutiveLosses stats)] else []))"
proof (intro conjI allI impI)
  show "latest_first ts (sort_key (\<lambda>t. - getTime (date t)) ts)" by (rule latest_first_sort)
next
  fix xs assume "latest_first ts xs"
  then have xs: "xs = sort_key (\<lambda>t. - getTime (date t)) ts" by (rule latest_first_unique)
  then have "length (filter (\<lambda>t. result t = Loss) (take 5 xs)) = recentLosses ts"
    by (simp add: recentLosses_def recentTrades_def)
  then show "filter is_ConsecutiveLossesWarning (generateInsights ts stats)
            = (if 3 \<le> maxConsecutiveLosses stats
                  \<and> 3 \<le> length (filter (\<lambda>t. result t = Loss) (take 5 xs))
               then [ConsecutiveLossesWarning (maxConsecutiveLosses stats)] else [])"
    using assms by (simp add: generateInsights_def no_clw consecutiveLossesRule_def)
qed

lemma maxConsecutiveLosses_by_date:
  assumes "chronological ts xs" and "ts \<noteq> []"
  shows "maxConsecutiveLosses (calculateStats ts) = snd (streak_loop xs 0 0 0 0)"
  using streaks_of_nonempty [OF assms(2)] chronological_unique [OF assms(1)] by simp

theorem consecutive_loss_warning_witness:
  "old_losses_example \<noteq> []
   \<and> latest_first old_losses_example old_losses_latest_first
   \<and> maxConsecutiveLosses (calculateStats old_losses_example) = 3
   \<and> length (filter (\<lambda>t. result t = Loss) (take 5 old_losses_latest_first)) = 2
   \<and> filter is_ConsecutiveLossesWarning
        (generateInsights old_losses_example (calculateStats old_losses_example)) = []
   \<and> recent_losses_example \<noteq> []
   \<and> latest_first recent_losses_example recent_losses_latest_first
   \<and> maxConsecutiveLosses (calculateStats recent_losses_example) = 3
   \<and> length (filter (\<lambda>t. result t = Loss) (take 5 recent_losses_latest_first)) = 3
   \<and> filter is_ConsecutiveLossesWarning
        (generateInsights recent_losses_example (calculateStats recent_losses_example))
       = [ConsecutiveLossesWarning 3]"
proof -
  have ne1: "old_losses_example \<noteq> []" by (simp add: old_losses_example_def)
  have lf1: "latest_first old_losses_example old_losses_latest_first"
    by (simp add: latest_first_def old_losses_example_def old_losses_latest_first_def
        mk_trade_def day_def)
  have "chronological old_losses_example (rev old_losses_latest_first)"
    by (simp add: chronological_def old_losses_example_def old_losses_latest_first_def
        mk_trade_def day_def)
  from maxConsecutiveLosses_by_date [OF this ne1]
  have m1: "maxConsecutiveLosses (calculateStats old_losses_example) = 3"
    by (simp add: old_losses_latest_first_def mk_trade_def)
  have n1: "length (filter (\<lambda>t. result t = Loss) (take 5 old_losses_latest_first)) = 2"
    by (simp add: old_losses_latest_first_def mk_trade_def)
  have ne2: "recent_losses_example \<noteq> []" by (simp add: recent_losses_example_def)
  have lf2: "latest_first recent_losses_example recent_losses_latest_first"
    by (simp add: latest_first_def recent_losses_example_def recent_losses_latest_first_def
        mk_trade_def day_def)
  have "chronological recent_losses_example (rev recent_losses_latest_first)"
    by (simp add: chronological_def recent_losses_example_def recent_losses_latest_first_def
        mk_trade_def day_def)
  from maxConsecutiveLosses_by_date [OF this ne2]
  have m2: "maxConsecutiveLosses (calculateStats recent_losses_example) = 3"
    by (simp add: recent_losses_latest_first_def mk_trade_def)
  have n2: "length (filter (\<lambda>t. result t = Loss) (take 5 recent_losses_latest_first)) = 3"
    by (simp add: recent_losses_latest_first_def mk_trade_def)
  from consecutive_loss_warning [OF ne1, of "calculateStats old_losses_example"] lf1
  have r1: "filter is_ConsecutiveLossesWarning
        (generateInsights old_losses_example (calculateStats old_losses_example)) = []"
    unfolding m1 by (simp add: n1)
  from consecutive_loss_warning [OF ne2, of "calculateStats recent_losses_example"] lf2
  have r2: "filter is_ConsecutiveLossesWarning
        (generateInsights recent_losses_example (calculateStats recent_losses_example))
       = [ConsecutiveLossesWarning 3]"
    unfolding m2 by (simp add: n2)
  from ne1 lf1 m1 n1 r1 ne2 lf2 m2 n2 r2 show ?thesis by simp
qed

section \<open>Properties of calculateMonthlyPerformance\<close>

lemma month_add_ok:
  "MonthData.wins d \<le> MonthData.trades d \<Longrightarrow> month_ok (month_add t d)"
  by (simp add: month_ok_def month_add_def)

lemma map_entry_fresh:
  "k \<notin> fst ` set xs \<Longrightarrow> AList.map_entry k f (xs @ ys) = xs @ AList.map_entry k f ys"
  by (induction xs) auto

lemma map_entry_set:
  "p \<in> set (AList.map_entry k f xs) \<Longrightarrow> p \<in> set xs \<or> (\<exists>v. (k, v) \<in> set xs \<and> p = (k, f v))"
  by (induction xs) (auto split: if_splits)

lemma monthly_loop_ok:
  "\<forall>p\<in>set acc. month_ok (snd p) \<Longrightarrow> \<forall>p\<in>set (monthly_loop ts acc). month_ok (snd p)"
proof (induction ts arbitrary: acc)
  case Nil
  then show ?case by simp
next
  case (Cons t ts)
  let ?k = "monthKey t"
  let ?z = "\<lparr> MonthData.profit = 0, MonthData.trades = 0, MonthData.wins = 0 \<rparr>"
  let ?acc' = "if map_of acc ?k = None then acc @ [(?k, ?z)] else acc"
  have "\<forall>p\<in>set (AList.map_entry ?k (month_add t) ?acc'). month_ok (snd p)"
  proof (cases "map_of acc ?k = None")
    case True
    then have "?k \<notin> fst ` set acc" by (simp add: map_of_eq_None_iff)
    then have "AList.map_entry ?k (month_add t) ?acc' = acc @ [(?k, month_add t ?z)]"
      using True by (simp add: map_entry_fresh)
    moreover have "month_ok (month_add t ?z)" by (rule month_add_ok) simp
    ultimately show ?thesis using Cons.prems by auto
  next
    case False
    show ?thesis
    proof
      fix p assume "p \<in> set (AList.map_entry ?k (month_add t) ?acc')"
      then have "p \<in> set (AList.map_entry ?k (month_add t) acc)" using False by simp
      then consider "p \<in> set acc" | v where "(?k, v) \<in> set acc" "p = (?k, month_add t v)"
        using map_entry_set by fastforce
      then show "month_ok (snd p)"
      proof cases
        case 1 then show ?thesis using Cons.prems by blast
      next
        case 2
        then have "month_ok (snd (?k, v))" using Cons.prems by blast
        then have "MonthData.wins v \<le> MonthData.trades v" by (simp add: month_ok_def)
        then show ?thesis using 2 by (simp add: month_add_ok)
      qed
    qed
  qed
  then have "\<forall>p\<in>set (monthly_loop ts (AList.map_entry ?k (month_add t) ?acc')). month_ok (snd p)"
    by (rule Cons.IH)
  then show ?case by (simp add: Let_def)
qed
text \<open>
  C10. Every record of \<^verbatim>\<open>calculateMonthlyPerformance\<close> counts at least one trade, so the
  division \<^verbatim>\<open>data.wins / data.trades\<close> never has a zero divisor, and its win rate lies
  between 0 and 100.
\<close>

theorem monthly_trades_winRate:
  "\<forall>m\<in>set (calculateMonthlyPerformance ts).
      1 \<le> MonthlyPerformance.trades m
      \<and> 0 \<le> MonthlyPerformance.winRate m \<and> MonthlyPerformance.winRate m \<le> 100"
proof
  fix m assume "m \<in> set (calculateMonthlyPerformance ts)"
  then obtain k d where kd: "(k, d) \<in> set (monthly_loop ts [])"
    and m: "m = \<lparr> MonthlyPerformance.month = k,
                     MonthlyPerformance.profit = MonthData.profit d,
                     MonthlyPerformance.trades = MonthData.trades d,
                     MonthlyPerformance.winRate =
                       real (MonthData.wins d) / real (MonthData.trades d) * 100 \<rparr>"
    by (auto simp: calculateMonthlyPerformance_def)
  have "month_ok (snd (k, d))" using monthly_loop_ok[of "[]" ts] kd by fastforce
  then have ok: "1 \<le> MonthData.trades d" "MonthData.wins d \<le> MonthData.trades d"
    by (simp_all add: month_ok_def)
  then have "real (MonthData.wins d) / real (MonthData.trades d) * 100 \<le> 100"
    by (simp add: field_simps)
  moreover have "0 \<le> real (MonthData.wins d) / real (MonthData.trades d) * 100" by simp
  ultimately show "1 \<le> MonthlyPerformance.trades m
      \<and> 0 \<le> MonthlyPerformance.winRate m \<and> MonthlyPerformance.winRate m \<le> 100"
    using ok m by simp
qed
theorem monthly_trades_winRate_witness:
  "calculateMonthlyPerformance win_loss_example
     = [\<lparr> MonthlyPerformance.month = ''2024-03'', MonthlyPerformance.profit = 1,
          MonthlyPerformance.trades = 2, MonthlyPerformance.winRate = 50 \<rparr>]
   \<and> hd (calculateMonthlyPerformance win_loss_example)
        \<in> set (calculateMonthlyPerformance win_loss_example)
   \<and> 1 \<le> MonthlyPerformance.trades (hd (calculateMonthlyPerformance win_loss_example))
   \<and> 0 \<le> MonthlyPerformance.winRate (hd (calculateMonthlyPerformance win_loss_example))
   \<and> MonthlyPerformance.winRate (hd (calculateMonthlyPerformance win_loss_example)) \<le> 100"
proof -
  have v: "calculateMonthlyPerformance win_loss_example
     = [\<lparr> MonthlyPerformance.month = ''2024-03'', MonthlyPerformance.profit = 1,
          MonthlyPerformance.trades = 2, MonthlyPerformance.winRate = 50 \<rparr>]"
    by code_simp
  then have h: "hd (calculateMonthlyPerformance win_loss_example)
        \<in> set (calculateMonthlyPerformance win_loss_example)"
    by simp
  from monthly_trades_winRate [of win_loss_example] h v show ?thesis by blast
qed

section \<open>Properties of binary64 rounding\<close>

lemma overflow_threshold_pos: "0 < overflow_threshold"
  by (simp add: overflow_threshold_def)

lemma overflow_threshold_less: "overflow_threshold < 2 powi 1024"
  by (simp add: overflow_threshold_def)

lemma round_half_even_nonneg: "0 \<le> q \<Longrightarrow> 0 \<le> round_half_even q"
  by (auto simp: round_half_even_def Let_def)

lemma round_half_even_of_int [simp]: "round_half_even (of_int n) = n"
  by (simp add: round_half_even_def Let_def)

lemma round_half_even_eq_0_iff:
  assumes "0 \<le> q"
  shows "round_half_even q = 0 \<longleftrightarrow> q \<le> 1 / 2"
proof
  assume z: "round_half_even q = 0"
  show "q \<le> 1 / 2"
  proof (rule ccontr)
    assume "\<not> q \<le> 1 / 2"
    then have q: "1 / 2 < q" by simp
    have f0: "0 \<le> \<lfloor>q\<rfloor>" using assms by simp
    show False
    proof (cases "\<lfloor>q\<rfloor> = 0")
      case True
      then have "q - of_int \<lfloor>q\<rfloor> > 1 / 2" using q by simp
      then have "round_half_even q = \<lfloor>q\<rfloor> + 1" by (simp add: round_half_even_def Let_def)
      with z True show False by simp
    next
      case False
      with f0 have "0 < \<lfloor>q\<rfloor>" by linarith
      moreover have "\<lfloor>q\<rfloor> \<le> round_half_even q" by (simp add: round_half_even_def Let_def)
      ultimately show False using z by simp
    qed
  qed
next
  assume h: "q \<le> 1 / 2"
  have f: "\<lfloor>q\<rfloor> = 0" using assms h by (simp add: floor_eq_iff)
  show "round_half_even q = 0" unfolding round_half_even_def Let_def f using h by simp
qed

text \<open>The exponent of the unit in the last place.\<close>

lemma ulp_exponent_props:
  assumes "\<bar>x\<bar> < 2 powi 1024"
  shows "- 1074 \<le> ulp_exponent x" and "ulp_exponent x \<le> 971"
    and "\<bar>x\<bar> < 2 powi (ulp_exponent x + 53)"
    and "\<And>k. - 1074 \<le> k \<Longrightarrow> k \<le> 971 \<Longrightarrow> \<bar>x\<bar> < 2 powi (k + 53) \<Longrightarrow> ulp_exponent x \<le> k"
proof -
  let ?S = "Set.filter (\<lambda>k. \<bar>x\<bar> < 2 powi (k + 53)) {-1074..971::int}"
  have fin: "finite ?S" by (rule finite_filter) simp
  have "971 \<in> ?S" using assms by simp
  then have ne: "?S \<noteq> {}" by blast
  have e: "ulp_exponent x = Min ?S" using assms by (simp add: ulp_exponent_def)
  from Min_in [OF fin ne] have m: "Min ?S \<in> ?S" .
  then show "- 1074 \<le> ulp_exponent x" "ulp_exponent x \<le> 971"
    "\<bar>x\<bar> < 2 powi (ulp_exponent x + 53)"
    unfolding e by simp_all
  fix k :: int assume "- 1074 \<le> k" "k \<le> 971" "\<bar>x\<bar> < 2 powi (k + 53)"
  then have "k \<in> ?S" by simp
  then show "ulp_exponent x \<le> k" unfolding e using fin by (rule Min_le [rotated])
qed

lemma ulp_exponent_lower:
  assumes "\<bar>x\<bar> < 2 powi 1024" and "- 1074 < ulp_exponent x"
  shows "2 powi (ulp_exponent x + 52) \<le> \<bar>x\<bar>"
proof (rule ccontr)
  assume "\<not> 2 powi (ulp_exponent x + 52) \<le> \<bar>x\<bar>"
  then have "\<bar>x\<bar> < 2 powi (ulp_exponent x + 52)" by simp
  moreover have "ulp_exponent x + 52 = (ulp_exponent x - 1) + 53" by simp
  ultimately have "\<bar>x\<bar> < 2 powi ((ulp_exponent x - 1) + 53)" by (simp only:)
  moreover have "- 1074 \<le> ulp_exponent x - 1" using assms(2) by simp
  moreover have "ulp_exponent x - 1 \<le> 971" using ulp_exponent_props(2) [OF assms(1)] by simp
  ultimately have "ulp_exponent x \<le> ulp_exponent x - 1"
    by (rule ulp_exponent_props(4) [OF assms(1), rotated 2])
  then show False by simp
qed

lemma round64_not_NaN [simp]: "round64 x \<noteq> NaN"
  by (simp add: round64_def Let_def)

lemma round64_PlusInfinity_iff: "round64 x = PlusInfinity \<longleftrightarrow> overflow_threshold \<le> x"
  using overflow_threshold_pos by (auto simp: round64_def Let_def)

lemma round64_MinusInfinity_iff: "round64 x = MinusInfinity \<longleftrightarrow> x \<le> - overflow_threshold"
  using overflow_threshold_pos by (auto simp: round64_def Let_def)

lemma round64_nonneg:
  assumes "0 \<le> x"
  shows "round64 x = PlusInfinity \<or> (\<exists>y\<ge>0. round64 x = Num y)"
proof (cases "overflow_threshold \<le> \<bar>x\<bar>")
  case True
  then show ?thesis using assms overflow_threshold_pos by (simp add: round64_def)
next
  case False
  let ?e = "ulp_exponent x"
  have "0 \<le> round_half_even (\<bar>x\<bar> / 2 powi ?e)"
    by (rule round_half_even_nonneg) simp
  then have "0 \<le> sgn x * of_int (round_half_even (\<bar>x\<bar> / 2 powi ?e)) * 2 powi ?e"
    using assms by (simp add: sgn_real_def)
  then show ?thesis using False by (simp add: round64_def Let_def)
qed

lemma round64_nonpos:
  assumes "x \<le> 0"
  shows "round64 x = MinusInfinity \<or> (\<exists>y\<le>0. round64 x = Num y)"
proof (cases "overflow_threshold \<le> \<bar>x\<bar>")
  case True
  then show ?thesis using assms overflow_threshold_pos by (simp add: round64_def)
next
  case False
  let ?e = "ulp_exponent x"
  have "0 \<le> round_half_even (\<bar>x\<bar> / 2 powi ?e)"
    by (rule round_half_even_nonneg) simp
  then have "0 \<le> of_int (round_half_even (\<bar>x\<bar> / 2 powi ?e)) * (2::real) powi ?e"
    by simp
  then have "sgn x * (of_int (round_half_even (\<bar>x\<bar> / 2 powi ?e)) * 2 powi ?e) \<le> 0"
    using assms by (simp add: sgn_real_def mult_le_0_iff)
  then show ?thesis using False by (simp add: round64_def Let_def mult.assoc)
qed

text \<open>A binary64 value is rounded to itself.\<close>

lemma round64_exact:
  assumes m: "\<bar>m\<bar> < 2 ^ 53" and e: "- 1074 \<le> e" "e \<le> 971"
  shows "round64 (of_int m * 2 powi e) = Num (of_int m * 2 powi e)"
proof -
  let ?x = "of_int m * (2::real) powi e"
  have ax: "\<bar>?x\<bar> = of_int \<bar>m\<bar> * 2 powi e" by (simp add: abs_mult)
  have "of_int \<bar>m\<bar> \<le> (2::real) ^ 53 - 1"
  proof -
    have "\<bar>m\<bar> \<le> 2 ^ 53 - 1" using m by simp
    then have "(of_int \<bar>m\<bar> :: real) \<le> of_int (2 ^ 53 - 1)" by (rule of_int_le_iff [THEN iffD2])
    then show ?thesis by simp
  qed
  then have b1: "\<bar>?x\<bar> \<le> (2 ^ 53 - 1) * 2 powi e"
    unfolding ax by (intro mult_right_mono) simp_all
  have "(2::real) powi e \<le> 2 powi 971" using e by (intro power_int_increasing) simp_all
  then have "((2::real) ^ 53 - 1) * 2 powi e \<le> (2 ^ 53 - 1) * 2 powi 971"
    by (intro mult_left_mono) simp_all
  also have "\<dots> < overflow_threshold" by (simp add: overflow_threshold_def)
  finally have b2: "((2::real) ^ 53 - 1) * 2 powi e < overflow_threshold" .
  from b1 b2 have small: "\<bar>?x\<bar> < overflow_threshold" by simp
  then have lt: "\<bar>?x\<bar> < 2 powi 1024" using overflow_threshold_less by simp
  define k where "k = ulp_exponent ?x"
  have "\<bar>?x\<bar> < 2 ^ 53 * 2 powi e"
  proof -
    have "(of_int \<bar>m\<bar> :: real) < of_int (2 ^ 53)" using m by (simp only: of_int_less_iff)
    then have "(of_int \<bar>m\<bar> :: real) < 2 ^ 53" by simp
    then show ?thesis unfolding ax by (intro mult_strict_right_mono) simp_all
  qed
  also have "(2::real) ^ 53 * 2 powi e = 2 powi (e + 53)"
    by (simp add: power_int_add)
  finally have "\<bar>?x\<bar> < 2 powi (e + 53)" .
  then have ke: "k \<le> e" unfolding k_def using e by (intro ulp_exponent_props(4) [OF lt])
  then obtain d where d: "e - k = int d" by (metis zle_iff_zadd add_diff_cancel_left')
  have "(2::real) powi e = 2 powi (e - k) * 2 powi k"
    by (simp flip: power_int_add)
  also have "(2::real) powi (e - k) = 2 ^ d" by (simp add: d)
  finally have pe: "(2::real) powi e = 2 ^ d * 2 powi k" .
  have ax': "\<bar>?x\<bar> = of_int \<bar>m\<bar> * 2 ^ d * 2 powi k"
    using ax pe by (simp only: mult.assoc)
  have q: "\<bar>?x\<bar> / 2 powi k = of_int (\<bar>m\<bar> * 2 ^ d)"
    unfolding ax' by simp
  have "sgn ?x * of_int (round_half_even (\<bar>?x\<bar> / 2 powi k)) * 2 powi k
        = sgn ?x * (\<bar>?x\<bar> / 2 powi k) * 2 powi k"
    unfolding q by (simp only: round_half_even_of_int)
  also have "\<dots> = sgn ?x * \<bar>?x\<bar>" by simp
  also have "\<dots> = ?x" by (simp add: sgn_real_def)
  finally have "sgn ?x * of_int (round_half_even (\<bar>?x\<bar> / 2 powi k)) * 2 powi k = ?x" .
  then show ?thesis using small unfolding k_def by (simp add: round64_def Let_def)
qed

lemma round64_0 [simp]: "round64 0 = Num 0"
  using round64_exact [of 0 0] by simp

lemma round64_of_int: "\<bar>n\<bar> < 2 ^ 53 \<Longrightarrow> round64 (of_int n) = Num (of_int n)"
  using round64_exact [of n 0] by simp

lemma round64_numeral [simp]:
  "numeral k < (2::int) ^ 53 \<Longrightarrow> round64 (numeral k) = Num (numeral k)"
  using round64_of_int [of "numeral k"] by simp

lemma round64_neg_numeral [simp]:
  "numeral k < (2::int) ^ 53 \<Longrightarrow> round64 (- numeral k) = Num (- numeral k)"
  using round64_of_int [of "- numeral k"] by simp

lemma round64_1 [simp]: "round64 1 = Num 1"
  using round64_of_int [of 1] by simp

lemma round64_2_1023: "round64 (2 ^ 1023) = Num (2 ^ 1023)"
proof -
  have "(of_int (2 ^ 52) :: real) * 2 powi 971 = 2 ^ 1023" by simp
  then show ?thesis using round64_exact [of "2 ^ 52" 971] by simp
qed

text \<open>Underflow to zero.\<close>

lemma round64_zero_iff: "round64 x = Num 0 \<longleftrightarrow> \<bar>x\<bar> \<le> 2 powi (- 1075)"
proof (cases "overflow_threshold \<le> \<bar>x\<bar>")
  case True
  moreover have "(2::real) powi (- 1075) < overflow_threshold"
  proof -
    have "(2::real) powi (- 1075) \<le> 2 powi 0" by (intro power_int_increasing) simp_all
    also have "\<dots> < overflow_threshold" by (simp add: overflow_threshold_def)
    finally show ?thesis .
  qed
  ultimately show ?thesis by (simp add: round64_def)
next
  case False
  then have lt: "\<bar>x\<bar> < 2 powi 1024" using overflow_threshold_less by simp
  let ?e = "ulp_exponent x"
  let ?m = "round_half_even (\<bar>x\<bar> / 2 powi ?e)"
  have r: "round64 x = Num (sgn x * of_int ?m * 2 powi ?e)"
    using False by (simp add: round64_def Let_def)
  have z: "round64 x = Num 0 \<longleftrightarrow> x = 0 \<or> ?m = 0"
    unfolding r by (auto simp: sgn_real_def)
  have m0: "?m = 0 \<longleftrightarrow> \<bar>x\<bar> / 2 powi ?e \<le> 1 / 2"
    by (rule round_half_even_eq_0_iff) simp
  have half: "\<bar>x\<bar> / 2 powi ?e \<le> 1 / 2 \<longleftrightarrow> \<bar>x\<bar> \<le> 2 powi (?e - 1)"
  proof -
    have eq: "(2::real) powi ?e / 2 = 2 powi (?e - 1)"
      by (simp add: power_int_diff)
    have "\<bar>x\<bar> / 2 powi ?e \<le> 1 / 2 \<longleftrightarrow> \<bar>x\<bar> \<le> 2 powi ?e / 2"
      by (simp add: field_simps)
    then show ?thesis by (simp only: eq)
  qed
  show ?thesis
  proof
    assume "round64 x = Num 0"
    with z m0 half have c: "x = 0 \<or> \<bar>x\<bar> \<le> 2 powi (?e - 1)" by blast
    show "\<bar>x\<bar> \<le> 2 powi (- 1075)"
    proof (cases "x = 0")
      case True then show ?thesis by simp
    next
      case False
      with c have le: "\<bar>x\<bar> \<le> 2 powi (?e - 1)" by simp
      have "?e = - 1074"
      proof (rule ccontr)
        assume "?e \<noteq> - 1074"
        with ulp_exponent_props(1) [OF lt] have "- 1074 < ?e" by simp
        from ulp_exponent_lower [OF lt this] le
        have "(2::real) powi (?e + 52) \<le> 2 powi (?e - 1)" by simp
        moreover have "(2::real) powi (?e - 1) < 2 powi (?e + 52)"
          by (intro power_int_strict_increasing) simp_all
        ultimately show False by simp
      qed
      with le show ?thesis by simp
    qed
  next
    assume le: "\<bar>x\<bar> \<le> 2 powi (- 1075)"
    have "(2::real) powi (- 1075) < 2 powi (- 1074 + 53)"
      by (intro power_int_strict_increasing) simp_all
    with le have "\<bar>x\<bar> < 2 powi (- 1074 + 53)" by simp
    then have "?e \<le> - 1074" by (intro ulp_exponent_props(4) [OF lt]) simp_all
    with ulp_exponent_props(1) [OF lt] have e: "?e = - 1074" by simp
    from le have "\<bar>x\<bar> \<le> 2 powi (?e - 1)" unfolding e by simp
    with z m0 half show "round64 x = Num 0" by blast
  qed
qed
lemma round64_quarter: "round64 (1 / 4) = Num (1 / 4)"
  using round64_exact [of 1 "- 2"] by simp

lemma round64_min_subnormal: "round64 (2 powi (- 1074)) = Num (2 powi (- 1074))"
  using round64_exact [of 1 "- 1074"] by simp

text \<open>Outside the representable numbers the rounding is visible: above \<open>2 ^ 53\<close> the doubles are
  the even integers, and an odd integer, half-way between two of them, goes to the one whose
  significand is even.\<close>

lemma ulp_exponent_eq:
  assumes "- 1074 \<le> e" "e \<le> 971" "\<bar>x\<bar> < 2 powi (e + 53)"
    and "e = - 1074 \<or> 2 powi (e + 52) \<le> \<bar>x\<bar>"
  shows "ulp_exponent x = e"
proof -
  have "(2::real) powi (e + 53) \<le> 2 powi 1024"
    using assms(2) by (intro power_int_increasing) simp_all
  with assms(3) have lt: "\<bar>x\<bar> < 2 powi 1024" by simp
  have le: "ulp_exponent x \<le> e"
    using assms(1-3) by (intro ulp_exponent_props(4) [OF lt])
  show ?thesis
  proof (rule ccontr)
    assume "ulp_exponent x \<noteq> e"
    with le have less: "ulp_exponent x < e" by simp
    with ulp_exponent_props(1) [OF lt] have "e \<noteq> - 1074" by simp
    with assms(4) have lo: "2 powi (e + 52) \<le> \<bar>x\<bar>" by simp
    have "(2::real) powi (ulp_exponent x + 53) \<le> 2 powi (e + 52)"
      using less by (intro power_int_increasing) simp_all
    with ulp_exponent_props(3) [OF lt] lo show False by simp
  qed
qed

lemma round64_at:
  assumes "\<bar>x\<bar> < overflow_threshold" "ulp_exponent x = e"
    and "round_half_even (\<bar>x\<bar> / 2 powi e) = q"
  shows "round64 x = Num (sgn x * of_int q * 2 powi e)"
  using assms by (simp add: round64_def Let_def)

lemma round64_ties_to_even:
  "round64 (2 ^ 53 + 1) = Num (2 ^ 53) \<and> round64 (2 ^ 53 + 3) = Num (2 ^ 53 + 4)"
proof -
  have e1: "ulp_exponent (2 ^ 53 + 1) = 1"
    by (rule ulp_exponent_eq) simp_all
  have e3: "ulp_exponent (2 ^ 53 + 3) = 1"
    by (rule ulp_exponent_eq) simp_all
  have q1: "round_half_even (\<bar>2 ^ 53 + 1\<bar> / 2 powi 1) = 2 ^ 52"
    by (simp add: round_half_even_def Let_def)
  have q3: "round_half_even (\<bar>2 ^ 53 + 3\<bar> / 2 powi 1) = 2 ^ 52 + 2"
    by (simp add: round_half_even_def Let_def)
  have "round64 (2 ^ 53 + 1) = Num (2 ^ 53)"
    using round64_at [OF _ e1 q1] by (simp add: overflow_threshold_def)
  moreover have "round64 (2 ^ 53 + 3) = Num (2 ^ 53 + 4)"
    using round64_at [OF _ e3 q3] by (simp add: overflow_threshold_def)
  ultimately show ?thesis by simp
qed

section \<open>Properties of calculateStats in binary64 arithmetic\<close>

text \<open>The fields of \<open>calculateStats64\<close>; on the empty list the sums and the loop give 0.\<close>

lemma maxDrawdown64_eq:
  "maxDrawdown64 (calculateStats64 ts) = drawdown_loop64 (sortedTrades ts) (Num 0) (Num 0) (Num 0)"
  by (simp add: calculateStats64_def Let_def sortedTrades_def)

lemma totalProfit64_eq:
  "totalProfit64 (calculateStats64 ts) = reduce_sum64 rewardAmount (filter (\<lambda>t. result t = Win) ts)"
  by (simp add: calculateStats64_def Let_def reduce_sum64_def)

lemma totalLoss64_eq:
  "totalLoss64 (calculateStats64 ts)
     = abs64 (reduce_sum64 riskAmount (filter (\<lambda>t. result t = Loss) ts))"
  by (simp add: calculateStats64_def Let_def reduce_sum64_def)

lemma profitFactor64_eq:
  "profitFactor64 (calculateStats64 ts) =
     (if less64 (Num 0) (totalLoss64 (calculateStats64 ts))
      then div64 (totalProfit64 (calculateStats64 ts)) (totalLoss64 (calculateStats64 ts))
      else if less64 (Num 0) (totalProfit64 (calculateStats64 ts)) then PlusInfinity
      else Num 0)"
  by (simp add: calculateStats64_def Let_def reduce_sum64_def)

subsection \<open>Maximum drawdown\<close>

lemma max64_NaN [simp]: "max64 NaN x = NaN" "max64 x NaN = NaN"
  by (simp_all add: max64_def)

lemma drawdown_loop64_NaN: "drawdown_loop64 ts peak NaN rb = NaN"
  by (induction ts arbitrary: peak rb) (simp_all add: Let_def)

lemma add64_Num_cases:
  assumes "finite_or_minus rb"
  shows "add64 rb (Num r) = PlusInfinity \<or> finite_or_minus (add64 rb (Num r))"
  using assms by (cases rb) (auto simp: finite_or_minus_def round64_MinusInfinity_iff)

lemma ge64_zero_iff: "ge64 x (Num 0) \<longleftrightarrow> x = PlusInfinity \<or> (\<exists>d\<ge>0. x = Num d)"
  by (cases x) (auto simp: ge64_def)

lemma drawdown_step_ok:
  assumes p: "0 \<le> p" and rb: "finite_or_minus rb'"
  shows "\<exists>p'\<ge>0. max64 (Num p) rb' = Num p'"
    and "ge64 (sub64 (max64 (Num p) rb') rb') (Num 0)"
proof -
  show "\<exists>p'\<ge>0. max64 (Num p) rb' = Num p'"
    using p rb by (cases rb') (auto simp: max64_def finite_or_minus_def)
  show "ge64 (sub64 (max64 (Num p) rb') rb') (Num 0)"
  proof (cases rb')
    case (Num b)
    have "0 \<le> max p b - b" by simp
    from round64_nonneg [OF this] show ?thesis
      unfolding ge64_zero_iff using Num by (auto simp: max64_def sub64_def max_def)
  qed (use rb in \<open>auto simp: max64_def sub64_def finite_or_minus_def ge64_def\<close>)
qed

lemma max64_ge_zero: "ge64 a (Num 0) \<Longrightarrow> ge64 b (Num 0) \<Longrightarrow> ge64 (max64 a b) (Num 0)"
  by (auto simp: max64_def ge64_def)

lemma drawdown_loop64_inv:
  assumes "0 \<le> p" and "ge64 maxDD (Num 0)" and "finite_or_minus rb"
  shows "(PlusInfinity \<in> set (running_balances64 ts rb) \<longrightarrow>
            drawdown_loop64 ts (Num p) maxDD rb = NaN)
       \<and> (PlusInfinity \<notin> set (running_balances64 ts rb) \<longrightarrow>
            ge64 (drawdown_loop64 ts (Num p) maxDD rb) (Num 0))"
  using assms
proof (induction ts arbitrary: p maxDD rb)
  case Nil
  then show ?case by simp
next
  case (Cons t ts)
  let ?rb = "add64 rb (Num (rMultiple t))"
  let ?peak = "max64 (Num p) ?rb"
  let ?dd = "sub64 ?peak ?rb"
  have step: "drawdown_loop64 (t # ts) (Num p) maxDD rb
            = drawdown_loop64 ts ?peak (max64 maxDD ?dd) ?rb"
    by (simp add: Let_def)
  have bal: "running_balances64 (t # ts) rb = ?rb # running_balances64 ts ?rb"
    by (simp add: Let_def)
  from add64_Num_cases [OF Cons.prems(3), of "rMultiple t"]
  show ?case
  proof
    assume inf: "?rb = PlusInfinity"
    then have "?dd = NaN" by (simp add: max64_def sub64_def)
    then have "drawdown_loop64 (t # ts) (Num p) maxDD rb = NaN"
      unfolding step by (simp add: drawdown_loop64_NaN)
    then show ?thesis unfolding bal using inf by simp
  next
    assume ok: "finite_or_minus ?rb"
    then have ne: "?rb \<noteq> PlusInfinity" by (simp add: finite_or_minus_def)
    from drawdown_step_ok [OF Cons.prems(1) ok]
    obtain p' where p': "0 \<le> p'" "?peak = Num p'" and dd: "ge64 ?dd (Num 0)" by blast
    have m: "ge64 (max64 maxDD ?dd) (Num 0)"
      using Cons.prems(2) dd by (rule max64_ge_zero)
    from Cons.IH [OF p'(1) m ok] show ?thesis
      unfolding step bal p'(2) using ne by auto
  qed
qed
text \<open>
  C4, as claimed, fails: with two trades of r-multiple \<open>2^1023\<close> the running sum
  overflows to infinity, the peak is infinity too, their difference is NaN, and
  \<^verbatim>\<open>Math.max(maxDrawdown, NaN)\<close> is NaN, which is not at least 0.
\<close>

theorem maxDrawdown64_overflow_NaN:
  "maxDrawdown64 (calculateStats64 overflow_example) = NaN
   \<and> \<not> ge64 (maxDrawdown64 (calculateStats64 overflow_example)) (Num 0)"
proof -
  have "overflow_threshold \<le> 2 * 2 ^ 1023" by (simp add: overflow_threshold_def)
  then have o: "round64 (2 * 2 ^ 1023) = PlusInfinity"
    by (simp only: round64_PlusInfinity_iff)
  have "maxDrawdown64 (calculateStats64 overflow_example) = NaN"
    by (simp add: maxDrawdown64_eq overflow_example_def sortedTrades_def mk_trade_def day_def
        Let_def round64_2_1023 o max64_def sub64_def del: power_numeral)
  then show ?thesis by (simp add: ge64_def)
qed

text \<open>
  C4, amended. For every trade collection the maximum drawdown that \<^verbatim>\<open>calculateStats\<close>
  computes is at least 0 exactly when the running sum of the r-multiples, taken over the
  trades in chronological order, never overflows to plus infinity; when it does, the
  maximum drawdown is NaN.
\<close>

theorem maxDrawdown64_nonneg_iff:
  "chronological ts (sortedTrades ts)
   \<and> (\<forall>xs. chronological ts xs \<longrightarrow>
        (ge64 (maxDrawdown64 (calculateStats64 ts)) (Num 0)
           \<longleftrightarrow> PlusInfinity \<notin> set (running_balances64 xs (Num 0)))
        \<and> (PlusInfinity \<in> set (running_balances64 xs (Num 0))
           \<longrightarrow> maxDrawdown64 (calculateStats64 ts) = NaN))"
proof (intro conjI allI impI)
  show "chronological ts (sortedTrades ts)" by (rule chronological_sortedTrades)
next
  fix xs assume "chronological ts xs"
  then have xs: "xs = sortedTrades ts" by (rule chronological_unique)
  have "finite_or_minus (Num 0)" "ge64 (Num 0) (Num 0)"
    by (simp_all add: finite_or_minus_def ge64_def)
  from drawdown_loop64_inv [OF order_refl this(2) this(1), of "sortedTrades ts"]
  have inv: "(PlusInfinity \<in> set (running_balances64 xs (Num 0)) \<longrightarrow>
            maxDrawdown64 (calculateStats64 ts) = NaN)
       \<and> (PlusInfinity \<notin> set (running_balances64 xs (Num 0)) \<longrightarrow>
            ge64 (maxDrawdown64 (calculateStats64 ts)) (Num 0))"
    unfolding maxDrawdown64_eq xs .
  from inv show "ge64 (maxDrawdown64 (calculateStats64 ts)) (Num 0)
           \<longleftrightarrow> PlusInfinity \<notin> set (running_balances64 xs (Num 0))"
    by (auto simp: ge64_def)
  from inv show "PlusInfinity \<in> set (running_balances64 xs (Num 0))
           \<Longrightarrow> maxDrawdown64 (calculateStats64 ts) = NaN"
    by blast
qed

theorem maxDrawdown64_nonneg_iff_witness:
  "chronological win_loss_example win_loss_example
   \<and> running_balances64 win_loss_example (Num 0) = [Num 2, Num 1]
   \<and> ge64 (maxDrawdown64 (calculateStats64 win_loss_example)) (Num 0)
   \<and> chronological unsorted_overflow_example unsorted_overflow_by_date
   \<and> running_balances64 unsorted_overflow_by_date (Num 0)
       = [Num (2 ^ 1023), PlusInfinity, PlusInfinity]
   \<and> maxDrawdown64 (calculateStats64 unsorted_overflow_example) = NaN
   \<and> running_balances64 unsorted_overflow_example (Num 0)
       = [Num (- (2 ^ 1023)), Num 0, Num (2 ^ 1023)]"
proof -
  have c1: "chronological win_loss_example win_loss_example"
    by (simp add: chronological_def win_loss_example_def mk_trade_def day_def)
  have b1: "running_balances64 win_loss_example (Num 0) = [Num 2, Num 1]"
    by (simp add: win_loss_example_def mk_trade_def Let_def)
  have "overflow_threshold \<le> 2 * 2 ^ 1023" by (simp add: overflow_threshold_def)
  then have o: "round64 (2 * 2 ^ 1023) = PlusInfinity"
    by (simp only: round64_PlusInfinity_iff)
  have "\<bar>- (2 ^ 52)\<bar> < (2::int) ^ 53" by simp
  from round64_exact [OF this, of 971]
  have n: "round64 (- (2 ^ 1023)) = Num (- (2 ^ 1023))" by simp
  have c2: "chronological unsorted_overflow_example unsorted_overflow_by_date"
    by (simp add: chronological_def unsorted_overflow_example_def unsorted_overflow_by_date_def
        mk_trade_def day_def del: power_numeral)
  have b2: "running_balances64 unsorted_overflow_by_date (Num 0)
              = [Num (2 ^ 1023), PlusInfinity, PlusInfinity]"
    by (simp add: unsorted_overflow_by_date_def mk_trade_def Let_def round64_2_1023 o
        del: power_numeral)
  have b3: "running_balances64 unsorted_overflow_example (Num 0)
              = [Num (- (2 ^ 1023)), Num 0, Num (2 ^ 1023)]"
    by (simp add: unsorted_overflow_example_def mk_trade_def Let_def round64_2_1023 n
        del: power_numeral)
  have n1: "PlusInfinity \<notin> set (running_balances64 win_loss_example (Num 0))"
    unfolding b1 by simp
  have n2: "PlusInfinity \<in> set (running_balances64 unsorted_overflow_by_date (Num 0))"
    unfolding b2 by simp
  from maxDrawdown64_nonneg_iff [of win_loss_example] c1 n1
  have g: "ge64 (maxDrawdown64 (calculateStats64 win_loss_example)) (Num 0)" by blast
  from maxDrawdown64_nonneg_iff [of unsorted_overflow_example] c2 n2
  have m: "maxDrawdown64 (calculateStats64 unsorted_overflow_example) = NaN" by blast
  from c1 b1 g c2 b2 m b3 show ?thesis by blast
qed

text \<open>
  Where no step of the loop rounds, the binary64 loop returns the value of the loop over
  the reals; a single trade whose r-multiple is a binary64 number is such a case.
\<close>

lemma max64_Num: "max64 (Num a) (Num b) = Num (max a b)"
  by (simp add: max64_def max_def)

lemma drawdown_loop64_exact:
  "drawdown_exact ts peak rb \<Longrightarrow>
   drawdown_loop64 ts (Num peak) (Num maxDD) (Num rb) = Num (drawdown_loop ts peak maxDD rb)"
proof (induction ts arbitrary: peak maxDD rb)
  case Nil
  show ?case by simp
next
  case (Cons t ts)
  let ?rb = "rb + rMultiple t"
  let ?peak = "max peak ?rb"
  from Cons.prems have r1: "round64 ?rb = Num ?rb"
    and r2: "round64 (?peak - ?rb) = Num (?peak - ?rb)"
    and rest: "drawdown_exact ts ?peak ?rb"
    by (simp_all add: Let_def)
  have "sub64 (Num ?peak) (Num ?rb) = round64 (?peak + - ?rb)"
    by (simp only: sub64_def neg64.simps add64.simps)
  also have "?peak + - ?rb = ?peak - ?rb" by (simp only: add_uminus_conv_diff)
  finally have s: "sub64 (Num ?peak) (Num ?rb) = Num (?peak - ?rb)"
    using r2 by (simp only:)
  have "drawdown_loop64 (t # ts) (Num peak) (Num maxDD) (Num rb)
      = drawdown_loop64 ts (Num ?peak) (Num (max maxDD (?peak - ?rb))) (Num ?rb)"
    by (simp only: drawdown_loop64.simps Let_def add64.simps r1 max64_Num s)
  also have "\<dots> = Num (drawdown_loop ts ?peak (max maxDD (?peak - ?rb)) ?rb)"
    by (rule Cons.IH [OF rest])
  finally show ?case by (simp add: Let_def)
qed

lemma maxDrawdown64_exact:
  "drawdown_exact (sortedTrades ts) 0 0 \<Longrightarrow>
   maxDrawdown64 (calculateStats64 ts) = Num (maxDrawdown (calculateStats ts))"
  using drawdown_loop64_exact [of "sortedTrades ts" 0 0 0]
  by (simp add: maxDrawdown64_eq calculateStats_def Let_def sortedTrades_def)

lemma maxDrawdown64_single:
  assumes "\<bar>m\<bar> < 2 ^ 53" "- 1074 \<le> e" "e \<le> 971" "rMultiple t = of_int m * 2 powi e"
  shows "maxDrawdown64 (calculateStats64 [t]) = Num (max 0 (- rMultiple t))"
proof -
  have r: "round64 (rMultiple t) = Num (rMultiple t)"
    unfolding assms(4) using assms(1-3) by (rule round64_exact)
  have "\<bar>- m\<bar> < 2 ^ 53" using assms(1) by simp
  from round64_exact [OF this assms(2,3)]
  have n: "round64 (- rMultiple t) = Num (- rMultiple t)"
    unfolding assms(4) by simp
  show ?thesis
    by (cases "0 < rMultiple t")
       (simp_all add: maxDrawdown64_eq sortedTrades_def Let_def r n max64_def sub64_def max_def)
qed

subsection \<open>Profit factor\<close>

lemma add64_Num_not_NaN: "acc \<noteq> NaN \<Longrightarrow> add64 acc (Num r) \<noteq> NaN"
  by (cases acc) simp_all

lemma foldl_add64_not_NaN:
  "acc \<noteq> NaN \<Longrightarrow> foldl (\<lambda>sum t. add64 sum (Num (f t))) acc xs \<noteq> NaN"
  by (induction xs arbitrary: acc) (simp_all add: add64_Num_not_NaN)

lemma reduce_sum64_not_NaN [simp]: "reduce_sum64 f xs \<noteq> NaN"
  by (simp add: reduce_sum64_def foldl_add64_not_NaN)

lemma totalLoss64_cases:
  "totalLoss64 (calculateStats64 ts) = PlusInfinity
   \<or> (\<exists>b\<ge>0. totalLoss64 (calculateStats64 ts) = Num b)"
proof -
  let ?s = "reduce_sum64 riskAmount (filter (\<lambda>t. result t = Loss) ts)"
  have "?s \<noteq> NaN" by simp
  then have "abs64 ?s = PlusInfinity \<or> (\<exists>b\<ge>0. abs64 ?s = Num b)"
    by (cases ?s) auto
  then show ?thesis by (simp only: totalLoss64_eq)
qed

lemma totalLoss64_not_positive:
  "\<not> less64 (Num 0) (totalLoss64 (calculateStats64 ts))
     \<longleftrightarrow> totalLoss64 (calculateStats64 ts) = Num 0"
  using totalLoss64_cases [of ts] by auto

lemma div64_finite_PlusInfinity:
  "0 < b \<Longrightarrow> div64 (Num a) (Num b) = PlusInfinity \<longleftrightarrow> overflow_threshold \<le> a / b"
  by (simp add: round64_PlusInfinity_iff)

lemma div64_finite_zero:
  "0 < b \<Longrightarrow> div64 (Num a) (Num b) = Num 0 \<longleftrightarrow> \<bar>a / b\<bar> \<le> 2 powi (- 1075)"
  by (simp add: round64_zero_iff)

text \<open>
  C2, as claimed, fails: a single losing trade has \<open>totalLoss = 100 > 0\<close> and
  \<open>totalProfit = 0\<close>, so the profit factor is \<open>0 / 100 = 0\<close> although the total loss is
  not 0.
\<close>

theorem profitFactor64_zero_with_loss:
  "profitFactor64 (calculateStats64 single_loss_example) = Num 0
   \<and> totalLoss64 (calculateStats64 single_loss_example) = Num 100
   \<and> totalProfit64 (calculateStats64 single_loss_example) = Num 0"
proof -
  have tl: "totalLoss64 (calculateStats64 single_loss_example) = Num 100"
    and tp: "totalProfit64 (calculateStats64 single_loss_example) = Num 0"
    by (simp_all add: totalLoss64_eq totalProfit64_eq reduce_sum64_def
        single_loss_example_def mk_trade_def)
  have "profitFactor64 (calculateStats64 single_loss_example) = Num 0"
    unfolding profitFactor64_eq tl tp by simp
  with tl tp show ?thesis by simp
qed

text \<open>
  C2, amended. With \<^verbatim>\<open>totalProfit\<close>, \<^verbatim>\<open>totalLoss\<close> and their quotient as the binary64
  arithmetic of the source computes them: the profit factor is infinity exactly when the
  total loss is 0 and the total profit is positive, or the total loss is positive and the
  quotient is infinity; it is 0 exactly when the total loss is 0 and the total profit is
  not positive, or the total loss is positive and the quotient is 0; and when the total
  loss is positive it is the quotient. For finite totals with a positive total loss the
  quotient is infinity exactly when the exact quotient is at least \<open>2^1024 - 2^970\<close>
  (overflow), and 0 exactly when the magnitude of the exact quotient is at most \<open>2^-1075\<close>
  (a total profit of 0, or underflow).
\<close>

theorem profitFactor64_cases:
  "(profitFactor64 (calculateStats64 ts) = PlusInfinity \<longleftrightarrow>
      (totalLoss64 (calculateStats64 ts) = Num 0
       \<and> less64 (Num 0) (totalProfit64 (calculateStats64 ts)))
      \<or> (less64 (Num 0) (totalLoss64 (calculateStats64 ts))
          \<and> div64 (totalProfit64 (calculateStats64 ts)) (totalLoss64 (calculateStats64 ts))
              = PlusInfinity))
   \<and> (profitFactor64 (calculateStats64 ts) = Num 0 \<longleftrightarrow>
      (totalLoss64 (calculateStats64 ts) = Num 0
       \<and> \<not> less64 (Num 0) (totalProfit64 (calculateStats64 ts)))
      \<or> (less64 (Num 0) (totalLoss64 (calculateStats64 ts))
          \<and> div64 (totalProfit64 (calculateStats64 ts)) (totalLoss64 (calculateStats64 ts))
              = Num 0))
   \<and> (less64 (Num 0) (totalLoss64 (calculateStats64 ts)) \<longrightarrow>
        profitFactor64 (calculateStats64 ts)
          = div64 (totalProfit64 (calculateStats64 ts)) (totalLoss64 (calculateStats64 ts)))
   \<and> (\<forall>a b. totalProfit64 (calculateStats64 ts) = Num a
             \<and> totalLoss64 (calculateStats64 ts) = Num b \<and> 0 < b \<longrightarrow>
        (profitFactor64 (calculateStats64 ts) = PlusInfinity \<longleftrightarrow> 2 ^ 1024 - 2 ^ 970 \<le> a / b)
        \<and> (profitFactor64 (calculateStats64 ts) = Num 0 \<longleftrightarrow> \<bar>a / b\<bar> \<le> 2 powi (- 1075)))"
proof -
  define tp where "tp = totalProfit64 (calculateStats64 ts)"
  define tl where "tl = totalLoss64 (calculateStats64 ts)"
  define pf where "pf = profitFactor64 (calculateStats64 ts)"
  have pf: "pf = (if less64 (Num 0) tl then div64 tp tl
                  else if less64 (Num 0) tp then PlusInfinity else Num 0)"
    unfolding pf_def tp_def tl_def by (rule profitFactor64_eq)
  have tl0: "\<not> less64 (Num 0) tl \<longleftrightarrow> tl = Num 0"
    unfolding tl_def by (rule totalLoss64_not_positive)
  have "(pf = PlusInfinity \<longleftrightarrow>
          (tl = Num 0 \<and> less64 (Num 0) tp) \<or> (less64 (Num 0) tl \<and> div64 tp tl = PlusInfinity))
      \<and> (pf = Num 0 \<longleftrightarrow>
          (tl = Num 0 \<and> \<not> less64 (Num 0) tp) \<or> (less64 (Num 0) tl \<and> div64 tp tl = Num 0))
      \<and> (less64 (Num 0) tl \<longrightarrow> pf = div64 tp tl)
      \<and> (\<forall>a b. tp = Num a \<and> tl = Num b \<and> 0 < b \<longrightarrow>
            (pf = PlusInfinity \<longleftrightarrow> 2 ^ 1024 - 2 ^ 970 \<le> a / b)
            \<and> (pf = Num 0 \<longleftrightarrow> \<bar>a / b\<bar> \<le> 2 powi (- 1075)))"
  proof (cases "less64 (Num 0) tl")
    case True
    then have nz: "tl \<noteq> Num 0" by auto
    have p: "pf = div64 tp tl" using pf True by simp
    have fin: "\<forall>a b. tp = Num a \<and> tl = Num b \<and> 0 < b \<longrightarrow>
        (pf = PlusInfinity \<longleftrightarrow> 2 ^ 1024 - 2 ^ 970 \<le> a / b)
        \<and> (pf = Num 0 \<longleftrightarrow> \<bar>a / b\<bar> \<le> 2 powi (- 1075))"
      unfolding p
      using div64_finite_PlusInfinity div64_finite_zero
      by (auto simp: overflow_threshold_def simp del: div64.simps)
    show ?thesis
    proof (intro conjI)
      show "pf = PlusInfinity \<longleftrightarrow>
        (tl = Num 0 \<and> less64 (Num 0) tp) \<or> (less64 (Num 0) tl \<and> div64 tp tl = PlusInfinity)"
        using True nz p by simp
      show "pf = Num 0 \<longleftrightarrow>
        (tl = Num 0 \<and> \<not> less64 (Num 0) tp) \<or> (less64 (Num 0) tl \<and> div64 tp tl = Num 0)"
        using True nz p by simp
      show "less64 (Num 0) tl \<longrightarrow> pf = div64 tp tl"
        using p by simp
      show "\<forall>a b. tp = Num a \<and> tl = Num b \<and> 0 < b \<longrightarrow>
        (pf = PlusInfinity \<longleftrightarrow> 2 ^ 1024 - 2 ^ 970 \<le> a / b)
        \<and> (pf = Num 0 \<longleftrightarrow> \<bar>a / b\<bar> \<le> 2 powi (- 1075))"
        by (rule fin)
    qed
  next
    case False
    then have z: "tl = Num 0" by (simp only: tl0)
    have p: "pf = (if less64 (Num 0) tp then PlusInfinity else Num 0)"
      using pf False by simp
    show ?thesis using False z p by auto
  qed
  then show ?thesis unfolding pf_def tp_def tl_def .
qed

theorem profitFactor64_cases_witness:
  "totalProfit64 (calculateStats64 win_loss_example) = Num 200
   \<and> totalLoss64 (calculateStats64 win_loss_example) = Num 100
   \<and> profitFactor64 (calculateStats64 win_loss_example) = Num 2
   \<and> totalProfit64 (calculateStats64 quotient_overflow_example) = Num (2 ^ 1023)
   \<and> totalLoss64 (calculateStats64 quotient_overflow_example) = Num (1 / 4)
   \<and> profitFactor64 (calculateStats64 quotient_overflow_example) = PlusInfinity
   \<and> totalProfit64 (calculateStats64 quotient_underflow_example) = Num (2 powi (- 1074))
   \<and> totalLoss64 (calculateStats64 quotient_underflow_example) = Num 4
   \<and> profitFactor64 (calculateStats64 quotient_underflow_example) = Num 0"
proof -
  have tp1: "totalProfit64 (calculateStats64 win_loss_example) = Num 200"
    and tl1: "totalLoss64 (calculateStats64 win_loss_example) = Num 100"
    by (simp_all add: totalLoss64_eq totalProfit64_eq reduce_sum64_def
        win_loss_example_def mk_trade_def)
  have tp2: "totalProfit64 (calculateStats64 quotient_overflow_example) = Num (2 ^ 1023)"
    and tl2: "totalLoss64 (calculateStats64 quotient_overflow_example) = Num (1 / 4)"
    by (simp_all add: totalLoss64_eq totalProfit64_eq reduce_sum64_def
        quotient_overflow_example_def mk_trade_def round64_2_1023 round64_quarter
        del: power_numeral)
  have tp3: "totalProfit64 (calculateStats64 quotient_underflow_example) = Num (2 powi (- 1074))"
    and tl3: "totalLoss64 (calculateStats64 quotient_underflow_example) = Num 4"
    by (simp_all add: totalLoss64_eq totalProfit64_eq reduce_sum64_def
        quotient_underflow_example_def mk_trade_def round64_min_subnormal
        del: power_int_numeral_neg_numeral)
  have "less64 (Num 0) (totalLoss64 (calculateStats64 win_loss_example))"
    unfolding tl1 by simp
  with profitFactor64_cases [of win_loss_example]
  have "profitFactor64 (calculateStats64 win_loss_example)
          = div64 (totalProfit64 (calculateStats64 win_loss_example))
              (totalLoss64 (calculateStats64 win_loss_example))"
    by (simp only:)
  then have pf1: "profitFactor64 (calculateStats64 win_loss_example) = Num 2"
    unfolding tp1 tl1 by simp
  have o: "(2::real) ^ 1024 - 2 ^ 970 \<le> 2 ^ 1023 / (1 / 4)" by simp
  have "totalProfit64 (calculateStats64 quotient_overflow_example) = Num (2 ^ 1023)
        \<and> totalLoss64 (calculateStats64 quotient_overflow_example) = Num (1 / 4)
        \<and> (0::real) < 1 / 4"
    using tp2 tl2 by simp
  from profitFactor64_cases [of quotient_overflow_example,
      THEN conjunct2, THEN conjunct2, THEN conjunct2, rule_format, OF this]
  have pf2: "profitFactor64 (calculateStats64 quotient_overflow_example) = PlusInfinity"
    using o by (simp only:)
  have u: "\<bar>2 powi (- 1074) / 4\<bar> \<le> (2::real) powi (- 1075)" by simp
  have "totalProfit64 (calculateStats64 quotient_underflow_example) = Num (2 powi (- 1074))
        \<and> totalLoss64 (calculateStats64 quotient_underflow_example) = Num 4
        \<and> (0::real) < 4"
    using tp3 tl3 by simp
  from profitFactor64_cases [of quotient_underflow_example,
      THEN conjunct2, THEN conjunct2, THEN conjunct2, rule_format, OF this]
  have pf3: "profitFactor64 (calculateStats64 quotient_underflow_example) = Num 0"
    using u by (simp only:)
  from tp1 tl1 pf1 tp2 tl2 pf2 tp3 tl3 pf3 show ?thesis by simp
qed

end
